theory Spec2Isabelle
  imports
    Complex_Main
    "HOL-Library.AList"
    "HOL-Library.Char_ord"
    "HOL-Library.List_Lexorder"
    "HOL-Library.Log_Nat"
begin

section \<open>ProfDAGNet: the profiling layer of caffe2/contrib/prof/prof_dag_net.cc\<close>

text \<open>
  The development embeds the member functions of \<^verbatim>\<open>ProfDAGNet\<close> as functions on an explicit
  net state. Conventions:

  \<^item> C++ \<^verbatim>\<open>float\<close> is IEEE 754 binary32, every operation rounded once to nearest, ties to
    even. A value of the type \<open>cfloat\<close> is \<open>Finite x\<close> for a real \<open>x\<close> (the two zeros are
    one) or \<open>NonFinite\<close>, which stands for the infinities and NaN; the code never turns
    one of those back into a number, so they need not be told apart.
  \<^item> A thrown \<^verbatim>\<open>CAFFE_ENFORCE\<close> is the error \<open>EnforceNotMet\<close>; the functions return the
    state as it is when the exception leaves them, since the members are mutated in place.
  \<^item> Indexing \<^verbatim>\<open>operator_nodes_\<close> outside of the vector is undefined behaviour in C++; the
    model stops there with the error \<open>OutOfBounds\<close>.
  \<^item> \<^verbatim>\<open>runs_\<close> is an \<^verbatim>\<open>int\<close>; the model uses unbounded integers (overflow of a
    run counter is not considered).
\<close>

subsection \<open>\<^verbatim>\<open>float\<close>: binary32 arithmetic\<close>

datatype cfloat = Finite real | NonFinite

text \<open>Powers of two with an integer exponent.\<close>

definition pow2 :: "int \<Rightarrow> real" where
  "pow2 k = (if 0 \<le> k then 2 ^ nat k else 1 / 2 ^ nat (- k))"

text \<open>
  The binary exponent of a real other than 0, that is the \<open>e\<close> with
  \<open>pow2 e \<le> \<bar>x\<bar> < pow2 (e + 1)\<close>, computed from the number of bits of an integer.
\<close>

definition exponent :: "real \<Rightarrow> int" where
  "exponent x =
     (if 1 \<le> \<bar>x\<bar> then bitlen \<lfloor>\<bar>x\<bar>\<rfloor> - 1 else - bitlen (\<lceil>1 / \<bar>x\<bar>\<rceil> - 1))"

definition round_half_even :: "real \<Rightarrow> int" where
  "round_half_even q =
     (let f = \<lfloor>q\<rfloor>; d = q - of_int f
      in if d < 1 / 2 then f else if 1 / 2 < d then f + 1 else if even f then f else f + 1)"

text \<open>
  Rounding a real to binary32, to nearest and ties to even: 24 significant bits, the least
  exponent -126 (below it the spacing stays \<open>pow2 (- 149)\<close>, the subnormal numbers), and a
  result of magnitude \<open>2 ^ 128\<close> or more is an infinity.
\<close>

definition round32 :: "real \<Rightarrow> cfloat" where
  "round32 x =
     (if x = 0 then Finite 0
      else
        (let ulp = pow2 (max (exponent x) (- 126) - 23);
             r = of_int (round_half_even (x / ulp)) * ulp
         in if 2 ^ 128 \<le> \<bar>r\<bar> then NonFinite else Finite r))"

fun fadd :: "cfloat \<Rightarrow> cfloat \<Rightarrow> cfloat" where
  "fadd (Finite x) (Finite y) = round32 (x + y)"
| "fadd _ _ = NonFinite"

fun fsub :: "cfloat \<Rightarrow> cfloat \<Rightarrow> cfloat" where
  "fsub (Finite x) (Finite y) = round32 (x - y)"
| "fsub _ _ = NonFinite"

fun fmul :: "cfloat \<Rightarrow> cfloat \<Rightarrow> cfloat" where
  "fmul (Finite x) (Finite y) = round32 (x * y)"
| "fmul _ _ = NonFinite"

text \<open>
  \<^verbatim>\<open>float / int\<close>: the integer is converted to \<^verbatim>\<open>float\<close> (rounded, never an infinity for a
  32-bit \<^verbatim>\<open>int\<close>) and the division is made in \<^verbatim>\<open>float\<close>. Division by zero gives an
  infinity or NaN, it does not trap.
\<close>

fun fdiv :: "cfloat \<Rightarrow> int \<Rightarrow> cfloat" where
  "fdiv (Finite x) d =
     (case round32 (real_of_int d) of
        Finite y \<Rightarrow> (if y = 0 then NonFinite else round32 (x / y))
      | NonFinite \<Rightarrow> Finite 0)"
| "fdiv NonFinite d = NonFinite"

text \<open>\<^verbatim>\<open>std::sqrt\<close>: NaN on a negative argument, the rounded root otherwise.\<close>

fun fsqrt :: "cfloat \<Rightarrow> cfloat" where
  "fsqrt (Finite x) = (if x < 0 then NonFinite else round32 (sqrt x))"
| "fsqrt NonFinite = NonFinite"

subsection \<open>Data model\<close>

text \<open>
  Modelled from the spec: \<^verbatim>\<open>struct Stats\<close> is declared in prof_dag_net.h, which is not part
  of the sources at hand; the spec gives it as \<^verbatim>\<open>{sum: float, sqrsum: float, count: integer}\<close>
  and the code uses the members \<^verbatim>\<open>sum\<close>, \<^verbatim>\<open>sqrsum\<close> and \<^verbatim>\<open>cnt\<close>. The field \<^verbatim>\<open>sum\<close> is
  called \<open>sum_v\<close> here, away from the big-sum operator of HOL.
\<close>

record Stats =
  sum_v :: cfloat
  sqrsum :: cfloat
  cnt :: nat

text \<open>The value-initialised element \<^verbatim>\<open>Stats()\<close> of a vector or map.\<close>

definition Stats_zero :: Stats where
  "Stats_zero = \<lparr>sum_v = Finite 0, sqrsum = Finite 0, cnt = 0\<rparr>"

text \<open>
  What the code reads of an operator node: \<^verbatim>\<open>debug_def().type()\<close>, \<^verbatim>\<open>debug_def().name()\<close>
  and the outputs of the definition.
\<close>

record OperatorNode =
  def_type :: string
  def_name :: string
  def_output :: "string list"

text \<open>
  The external collaborators of one run, as oracles on the node index:
  \<^verbatim>\<open>operator_nodes_[idx].operator_->Run()\<close> and the \<^verbatim>\<open>timer.MilliSeconds()\<close> read after it.
\<close>

record RunEnv =
  Run :: "int \<Rightarrow> bool"
  MilliSeconds :: "int \<Rightarrow> cfloat"

datatype error = EnforceNotMet | OutOfBounds

text \<open>
  The members of the class, named as in the source without the trailing underscore
  (\<^verbatim>\<open>name_\<close> is \<open>net_name\<close>). \<open>executed\<close> is not a member: it records the calls of
  \<^verbatim>\<open>operator_->Run()\<close> in the order in which they are made, so that "this operator was
  executed" can be stated.
\<close>

record ProfDAGNet =
  net_name :: string
  operator_nodes :: "OperatorNode list"
  time_per_op :: "Stats list"
  time_per_op_type :: "(string \<times> Stats) list"
  runs :: int
  executed :: "int list"

record ProfDAGProto =
  name :: string
  mean :: cfloat
  stddev :: cfloat

subsection \<open>\<^verbatim>\<open>CaffeMap<string, V>\<close>: an ordered map with value-initialising \<^verbatim>\<open>operator[]\<close>\<close>

text \<open>
  The map is an association list with distinct keys; \<open>items\<close> lists it in key order, as the
  iteration over a \<^verbatim>\<open>std::map\<close> does.
\<close>

definition index_or_default :: "'v \<Rightarrow> (string \<times> 'v) list \<Rightarrow> string \<Rightarrow> 'v" where
  "index_or_default d m k = (case map_of m k of None \<Rightarrow> d | Some v \<Rightarrow> v)"

text \<open>\<^verbatim>\<open>m[k] = f(m[k])\<close>, which creates the entry when it is missing.\<close>

definition modify_at :: "'v \<Rightarrow> string \<Rightarrow> ('v \<Rightarrow> 'v) \<Rightarrow> (string \<times> 'v) list \<Rightarrow> (string \<times> 'v) list" where
  "modify_at d k f m = AList.update k (f (index_or_default d m k)) m"

definition items :: "(string \<times> 'v) list \<Rightarrow> (string \<times> 'v) list" where
  "items m = sort_key fst m"

subsection \<open>Construction\<close>

text \<open>
  \<^verbatim>\<open>ProfDAGNet::ProfDAGNet\<close>: the base class builds \<^verbatim>\<open>name_\<close> and \<^verbatim>\<open>operator_nodes_\<close> from the
  net definition (given here as arguments); \<^verbatim>\<open>time_per_op_(operator_nodes_.size())\<close>
  value-initialises one entry per node. Modelled from the spec: the initial value of
  \<^verbatim>\<open>runs_\<close> is set in prof_dag_net.h, which is not at hand; the spec has the run counter at 1
  after the first run, so it starts at 0.
\<close>

definition ProfDAGNet :: "string \<Rightarrow> OperatorNode list \<Rightarrow> ProfDAGNet" where
  "ProfDAGNet nm nodes =
     \<lparr>net_name = nm,
      operator_nodes = nodes,
      time_per_op = replicate (length nodes) Stats_zero,
      time_per_op_type = [],
      runs = 0,
      executed = []\<rparr>"

subsection \<open>\<^verbatim>\<open>ProfDAGNet::RunAt\<close>: timed execution of a chain\<close>

text \<open>\<^verbatim>\<open>time_per_op_[idx].sum += spent; time_per_op_[idx].sqrsum += spent * spent;\<close>\<close>

definition accumulate :: "cfloat \<Rightarrow> Stats \<Rightarrow> Stats" where
  "accumulate spent s =
     s\<lparr>sum_v := fadd (sum_v s) spent, sqrsum := fadd (sqrsum s) (fmul spent spent)\<rparr>"

text \<open>
  The loop over the chain, with the local \<^verbatim>\<open>success\<close> as an argument. Each round reads
  \<^verbatim>\<open>operator_nodes_[idx]\<close>, runs the operator (\<^verbatim>\<open>success &= ...\<close> evaluates its right-hand
  side whatever \<^verbatim>\<open>success\<close> is), and on a measured run checks
  \<^verbatim>\<open>time_per_op_.size() > idx\<close> before it accumulates.
\<close>

fun RunAt_loop :: "RunEnv \<Rightarrow> int list \<Rightarrow> bool \<Rightarrow> ProfDAGNet \<Rightarrow> (error + bool) \<times> ProfDAGNet" where
  "RunAt_loop env [] success net = (Inr success, net)"
| "RunAt_loop env (idx # chain) success net =
     (if idx < 0 \<or> int (length (operator_nodes net)) \<le> idx then (Inl OutOfBounds, net)
      else if runs net \<le> 1 then
        RunAt_loop env chain (success \<and> Run env idx) (net\<lparr>executed := executed net @ [idx]\<rparr>)
      else
        (let net1 = net\<lparr>executed := executed net @ [idx]\<rparr>;
             success1 = (success \<and> Run env idx);
             spent = MilliSeconds env idx
         in if \<not> int (length (time_per_op net1)) > idx then (Inl EnforceNotMet, net1)
            else RunAt_loop env chain success1
                   (net1\<lparr>time_per_op :=
                      (time_per_op net1)[nat idx := accumulate spent (time_per_op net1 ! nat idx)]\<rparr>)))"

definition RunAt :: "RunEnv \<Rightarrow> int list \<Rightarrow> ProfDAGNet \<Rightarrow> (error + bool) \<times> ProfDAGNet" where
  "RunAt env chain net = RunAt_loop env chain True net"

subsection \<open>The underlying engine\<close>

text \<open>
  Modelled from the spec: \<^verbatim>\<open>DAGNetBase::DoRunAsync\<close> is not part of the sources at hand. By
  the spec the engine invokes the chain hook once per chain, the chains of a run are joined
  before the run returns, and the run yields a success flag. The model takes the chains the
  engine dispatches in this run, in the order in which they complete, calls \<open>RunAt\<close> on
  each, returns the conjunction of their flags, and lets an error of a chain end the run.
\<close>

fun DAGNetBase_DoRunAsync ::
  "RunEnv \<Rightarrow> int list list \<Rightarrow> ProfDAGNet \<Rightarrow> (error + bool) \<times> ProfDAGNet" where
  "DAGNetBase_DoRunAsync env [] net = (Inr True, net)"
| "DAGNetBase_DoRunAsync env (chain # exec_chains) net =
     (case RunAt env chain net of
        (Inl e, net1) \<Rightarrow> (Inl e, net1)
      | (Inr this_success, net1) \<Rightarrow>
          (case DAGNetBase_DoRunAsync env exec_chains net1 of
             (Inl e, net2) \<Rightarrow> (Inl e, net2)
           | (Inr success, net2) \<Rightarrow> (Inr (this_success \<and> success), net2)))"

subsection \<open>\<^verbatim>\<open>ProfDAGNet::DoRunAsync\<close>: one run and its aggregation per operator type\<close>

text \<open>
  The body of the first loop after the run:
  \<^verbatim>\<open>time_per_op_type_run[op_type] += time_per_op_[idx].sum - time_per_op_run[idx].sum;\<close>
  \<^verbatim>\<open>time_per_op_type_[op_type].cnt += 1;\<close>
\<close>

definition collect_step ::
  "OperatorNode list \<Rightarrow> Stats list \<Rightarrow> Stats list \<Rightarrow> nat \<Rightarrow>
   (string \<times> cfloat) list \<times> (string \<times> Stats) list \<Rightarrow> (string \<times> cfloat) list \<times> (string \<times> Stats) list" where
  "collect_step nodes live snapshot idx acc =
     (let op_type = def_type (nodes ! idx)
      in (modify_at (Finite 0) op_type
            (\<lambda>t. fadd t (fsub (sum_v (live ! idx)) (sum_v (snapshot ! idx)))) (fst acc),
          modify_at Stats_zero op_type (\<lambda>s. s\<lparr>cnt := cnt s + 1\<rparr>) (snd acc)))"

text \<open>
  The body of the second loop:
  \<^verbatim>\<open>time_per_op_type_[item.first].sum += item.second;\<close>
  \<^verbatim>\<open>time_per_op_type_[item.first].sqrsum += item.second * item.second;\<close>
\<close>

definition fold_item :: "string \<times> cfloat \<Rightarrow> (string \<times> Stats) list \<Rightarrow> (string \<times> Stats) list" where
  "fold_item item m =
     modify_at Stats_zero (fst item)
       (\<lambda>s. s\<lparr>sum_v := fadd (sum_v s) (snd item),
              sqrsum := fadd (sqrsum s) (fmul (snd item) (snd item))\<rparr>) m"

text \<open>
  Both loops: the first runs over \<^verbatim>\<open>idx = 0 .. operator_nodes_.size() - 1\<close> from an empty
  \<^verbatim>\<open>time_per_op_type_run\<close>, the second over the items of that map in key order.
\<close>

definition aggregate ::
  "OperatorNode list \<Rightarrow> Stats list \<Rightarrow> Stats list \<Rightarrow> (string \<times> Stats) list \<Rightarrow> (string \<times> Stats) list" where
  "aggregate nodes live snapshot per_type =
     (let acc = fold (collect_step nodes live snapshot) [0..<length nodes] ([], per_type)
      in fold fold_item (items (fst acc)) (snd acc))"

text \<open>
  \<^verbatim>\<open>ValidateOpTensorDevices\<close>, called after the first run, only writes log lines and has no
  part in the state; it is left out.
\<close>

definition DoRunAsync :: "RunEnv \<Rightarrow> int list list \<Rightarrow> ProfDAGNet \<Rightarrow> (error + bool) \<times> ProfDAGNet" where
  "DoRunAsync env exec_chains net =
     (let net1 = net\<lparr>runs := runs net + 1\<rparr>
      in if runs net1 \<le> 1 then DAGNetBase_DoRunAsync env exec_chains net1
         else if length (time_per_op net1) \<noteq> length (operator_nodes net1)
           then (Inl EnforceNotMet, net1)
         else
           (let time_per_op_run = time_per_op net1
            in case DAGNetBase_DoRunAsync env exec_chains net1 of
                 (Inl e, net2) \<Rightarrow> (Inl e, net2)
               | (Inr success, net2) \<Rightarrow>
                   (Inr success,
                    net2\<lparr>time_per_op_type :=
                      aggregate (operator_nodes net2) (time_per_op net2) time_per_op_run
                        (time_per_op_type net2)\<rparr>)))"

subsection \<open>Reports\<close>

text \<open>\<^verbatim>\<open>ProfDAGNet::ProtoMsg\<close>, with \<^verbatim>\<open>runs_\<close> as an argument.\<close>

definition ProtoMsg :: "int \<Rightarrow> string \<times> Stats \<Rightarrow> ProfDAGProto" where
  "ProtoMsg runs_now op_stat =
     (let m = fdiv (sum_v (snd op_stat)) (runs_now - 1);
          sd = fsqrt (fsub (fdiv (sqrsum (snd op_stat)) (runs_now - 1)) (fmul m m))
      in \<lparr>name = fst op_stat, mean = m, stddev = sd\<rparr>)"

definition GetOperatorStats :: "ProfDAGNet \<Rightarrow> ProfDAGProto list" where
  "GetOperatorStats net = map (ProtoMsg (runs net)) (items (time_per_op_type net))"

text \<open>\<^verbatim>\<open>to_string\<close> on a node index: the decimal digits.\<close>

fun to_string :: "nat \<Rightarrow> string" where
  "to_string n =
     (if n < 10 then [char_of (48 + n)]
      else to_string (n div 10) @ [char_of (48 + n mod 10)])"

definition op_output_name :: "ProfDAGNet \<Rightarrow> nat \<Rightarrow> string" where
  "op_output_name net idx =
     net_name net @ ''___'' @ to_string idx @ ''___'' @ def_type (operator_nodes net ! idx)"

definition GetPerOperatorCost :: "ProfDAGNet \<Rightarrow> error + ProfDAGProto list" where
  "GetPerOperatorCost net =
     (if length (time_per_op net) \<noteq> length (operator_nodes net) then Inl EnforceNotMet
      else Inr (map (\<lambda>idx. ProtoMsg (runs net) (op_output_name net idx, time_per_op net ! idx))
                  [0..<length (operator_nodes net)]))"

text \<open>
  \<^verbatim>\<open>ProfDAGNet::PrintStats\<close>: the log lines as values. A line per node holds the index, the
  print name, the type, the mean and the deviation; a line per type holds the mean, the
  deviation, the count per iteration and the type.
\<close>

definition print_name :: "OperatorNode \<Rightarrow> string" where
  "print_name node =
     (if def_name node \<noteq> [] then def_name node
      else if def_output node \<noteq> [] then hd (def_output node) else ''NO_OUTPUT'')"

definition PrintStats ::
  "ProfDAGNet \<Rightarrow>
   error + ((nat \<times> string \<times> string \<times> cfloat \<times> cfloat) list \<times> (cfloat \<times> cfloat \<times> nat \<times> string) list)" where
  "PrintStats net =
     (if length (time_per_op net) \<noteq> length (operator_nodes net) then Inl EnforceNotMet
      else if \<not> runs net > 1 then Inl EnforceNotMet
      else
        (let measured_runs = runs net - 1
         in Inr
           (map (\<lambda>idx.
                   (let m = fdiv (sum_v (time_per_op net ! idx)) measured_runs;
                        sd = fsqrt (fsub (fdiv (sqrsum (time_per_op net ! idx)) measured_runs)
                                      (fmul m m))
                    in (idx, print_name (operator_nodes net ! idx),
                        def_type (operator_nodes net ! idx), m, sd)))
                [0..<length (operator_nodes net)],
            map (\<lambda>item.
                   (let m = fdiv (sum_v (snd item)) measured_runs;
                        sd = fsqrt (fsub (fdiv (sqrsum (snd item)) measured_runs) (fmul m m))
                    in (m, sd, cnt (snd item) div nat measured_runs, fst item)))
                (items (time_per_op_type net)))))"

text \<open>
  \<^verbatim>\<open>ProfDAGNet::~ProfDAGNet\<close>: with \<^verbatim>\<open>runs_ <= 1\<close> it logs "Insufficient runs to produce
  meaningful data." and returns (\<open>None\<close>), otherwise it prints the statistics.
\<close>

definition Destructor ::
  "ProfDAGNet \<Rightarrow>
   error + ((nat \<times> string \<times> string \<times> cfloat \<times> cfloat) list \<times> (cfloat \<times> cfloat \<times> nat \<times> string) list) option" where
  "Destructor net =
     (if runs net \<le> 1 then Inr None
      else (case PrintStats net of Inl e \<Rightarrow> Inl e | Inr report \<Rightarrow> Inr (Some report)))"

subsection \<open>The lifetime of a net\<close>

text \<open>
  The calls that mutate a net: full runs, and chain executions (which the engine makes
  during a run). \<open>lifetime\<close> applies a sequence of them, keeping the state an exception
  leaves behind.
\<close>

datatype call = Call_DoRunAsync RunEnv "int list list" | Call_RunAt RunEnv "int list"

fun apply_call :: "call \<Rightarrow> ProfDAGNet \<Rightarrow> ProfDAGNet" where
  "apply_call (Call_DoRunAsync env exec_chains) net = snd (DoRunAsync env exec_chains net)"
| "apply_call (Call_RunAt env chain) net = snd (RunAt env chain net)"

definition lifetime :: "call list \<Rightarrow> ProfDAGNet \<Rightarrow> ProfDAGNet" where
  "lifetime calls net = fold apply_call calls net"

subsection \<open>Closed forms for the statements\<close>

text \<open>
  What a measured chain execution does to \<^verbatim>\<open>time_per_op_\<close> when no check fails: one
  accumulation per element of the chain, in order.
\<close>

definition timed :: "RunEnv \<Rightarrow> int list \<Rightarrow> Stats list \<Rightarrow> Stats list" where
  "timed env idxs per_op =
     fold (\<lambda>idx t. t[nat idx := accumulate (MilliSeconds env idx) (t ! nat idx)]) idxs per_op"

text \<open>
  The indices a chain may hold without leaving the vectors: inside \<^verbatim>\<open>operator_nodes_\<close>,
  and on a measured run inside \<^verbatim>\<open>time_per_op_\<close>.
\<close>

definition in_range :: "ProfDAGNet \<Rightarrow> int \<Rightarrow> bool" where
  "in_range net idx =
     (0 \<le> idx \<and> idx < int (length (operator_nodes net)) \<and>
      (runs net \<le> 1 \<or> idx < int (length (time_per_op net))))"

text \<open>
  The aggregation in the words of the spec: the delta of a node is
  \<open>live.sum - snapshot.sum\<close>; the run-total of a type is the sum of the deltas of the nodes
  of that type, added up in \<^verbatim>\<open>float\<close> from 0 in the order of the indices; a type gains the
  run-total in \<open>sum\<close> and its square in \<open>sqrsum\<close>, and its invocation counter grows by the
  number of its node instances.
\<close>

definition delta :: "Stats list \<Rightarrow> Stats list \<Rightarrow> nat \<Rightarrow> cfloat" where
  "delta live snapshot idx = fsub (sum_v (live ! idx)) (sum_v (snapshot ! idx))"

definition run_total :: "OperatorNode list \<Rightarrow> Stats list \<Rightarrow> Stats list \<Rightarrow> string \<Rightarrow> cfloat" where
  "run_total nodes live snapshot T =
     fold (\<lambda>idx t. if def_type (nodes ! idx) = T then fadd t (delta live snapshot idx) else t)
       [0..<length nodes] (Finite 0)"

definition instance_count :: "OperatorNode list \<Rightarrow> string \<Rightarrow> nat" where
  "instance_count nodes T = length (filter (\<lambda>node. def_type node = T) nodes)"

definition add_run_total :: "cfloat \<Rightarrow> nat \<Rightarrow> Stats \<Rightarrow> Stats" where
  "add_run_total tot n s =
     \<lparr>sum_v = fadd (sum_v s) tot, sqrsum = fadd (sqrsum s) (fmul tot tot), cnt = cnt s + n\<rparr>"

text \<open>All indices of all chains of a run lie inside \<^verbatim>\<open>operator_nodes_\<close>.\<close>

definition chains_in_range :: "OperatorNode list \<Rightarrow> int list list \<Rightarrow> bool" where
  "chains_in_range nodes cs = list_all (list_all (\<lambda>idx. 0 \<le> idx \<and> idx < int (length nodes))) cs"

subsection \<open>A small net for the examples\<close>

definition node_of_type :: "string \<Rightarrow> OperatorNode" where
  "node_of_type T = \<lparr>def_type = T, def_name = [], def_output = []\<rparr>"

definition example_net :: ProfDAGNet where
  "example_net = ProfDAGNet ''net'' [node_of_type ''Add'', node_of_type ''Add'']"

definition example_env :: "bool \<Rightarrow> real \<Rightarrow> real \<Rightarrow> RunEnv" where
  "example_env ok0 t0 t1 =
     \<lparr>Run = (\<lambda>idx. if idx = 0 then ok0 else True),
      MilliSeconds = (\<lambda>idx. Finite (if idx = 0 then t0 else t1))\<rparr>"

definition warmed_up :: ProfDAGNet where
  "warmed_up = snd (DoRunAsync (example_env True 1 1) [[0, 1]] example_net)"

definition in_second_run :: ProfDAGNet where
  "in_second_run = warmed_up\<lparr>runs := runs warmed_up + 1\<rparr>"

definition after_measured :: ProfDAGNet where
  "after_measured = snd (DoRunAsync (example_env False 3 5) [[0], [1]] warmed_up)"

text \<open>A state inside a measured run in which \<^verbatim>\<open>time_per_op_\<close> is shorter than the node list.\<close>

definition short_net :: ProfDAGNet where
  "short_net =
     \<lparr>net_name = ''net'', operator_nodes = [node_of_type ''Add'', node_of_type ''Add''],
      time_per_op = [Stats_zero], time_per_op_type = [], runs = 2, executed = []\<rparr>"

text \<open>A fresh net after three runs: the warm-up and two measured ones.\<close>

definition warmup_then_two_runs ::
  "string \<Rightarrow> OperatorNode list \<Rightarrow> RunEnv \<Rightarrow> int list list \<Rightarrow> RunEnv \<Rightarrow> int list list \<Rightarrow>
   RunEnv \<Rightarrow> int list list \<Rightarrow> ProfDAGNet" where
  "warmup_then_two_runs nm nodes env0 cs0 env1 cs1 env2 cs2 =
     lifetime [Call_DoRunAsync env0 cs0, Call_DoRunAsync env1 cs1, Call_DoRunAsync env2 cs2]
       (ProfDAGNet nm nodes)"

section \<open>Properties\<close>

subsection \<open>binary32 rounding\<close>

lemma round_half_even_of_int: "round_half_even (of_int m) = m"
  by (simp add: round_half_even_def)

lemma exponent_bounds:
  assumes "x \<noteq> 0"
  shows "pow2 (exponent x) \<le> \<bar>x\<bar> \<and> \<bar>x\<bar> < pow2 (exponent x + 1)"
proof (cases "1 \<le> \<bar>x\<bar>")
  case True
  let ?m = "\<lfloor>\<bar>x\<bar>\<rfloor>"
  have m: "0 < ?m" using True by simp
  have b1: "1 \<le> bitlen ?m" using m by (simp add: bitlen_alt_def)
  from bitlen_bounds[OF m] have lo: "2 ^ nat (bitlen ?m - 1) \<le> ?m" and hi: "?m < 2 ^ nat (bitlen ?m)"
    by simp_all
  have "real_of_int (2 ^ nat (bitlen ?m - 1)) \<le> real_of_int ?m" using lo by (simp only: of_int_le_iff)
  also have "\<dots> \<le> \<bar>x\<bar>" by simp
  finally have l: "2 ^ nat (bitlen ?m - 1) \<le> \<bar>x\<bar>" by simp
  have "?m + 1 \<le> 2 ^ nat (bitlen ?m)" using hi by simp
  then have "real_of_int (?m + 1) \<le> real_of_int (2 ^ nat (bitlen ?m))" by (simp only: of_int_le_iff)
  then have a: "real_of_int ?m + 1 \<le> 2 ^ nat (bitlen ?m)" by simp
  have b: "\<bar>x\<bar> < real_of_int ?m + 1" by linarith
  from a b have h: "\<bar>x\<bar> < 2 ^ nat (bitlen ?m)" by linarith
  show ?thesis using True b1 l h by (simp add: exponent_def pow2_def)
next
  case False
  then have x1: "\<bar>x\<bar> < 1" by simp
  have x0: "0 < \<bar>x\<bar>" using assms by simp
  let ?y = "1 / \<bar>x\<bar>"
  let ?c = "\<lceil>?y\<rceil> - 1"
  have y1: "1 < ?y" using x0 x1 by simp
  have c: "0 < ?c" using y1 by linarith
  have b1: "1 \<le> bitlen ?c" using c by (simp add: bitlen_alt_def)
  from bitlen_bounds[OF c] have lo: "2 ^ nat (bitlen ?c - 1) \<le> ?c" and hi: "?c < 2 ^ nat (bitlen ?c)"
    by simp_all
  have "real_of_int (2 ^ nat (bitlen ?c - 1)) \<le> real_of_int ?c" using lo by (simp only: of_int_le_iff)
  then have a': "2 ^ nat (bitlen ?c - 1) \<le> real_of_int ?c" by simp
  have b': "real_of_int ?c < ?y" by linarith
  from a' b' have l: "2 ^ nat (bitlen ?c - 1) < ?y" by linarith
  have "?c + 1 \<le> 2 ^ nat (bitlen ?c)" using hi by simp
  then have "real_of_int (?c + 1) \<le> real_of_int (2 ^ nat (bitlen ?c))" by (simp only: of_int_le_iff)
  then have a: "real_of_int ?c + 1 \<le> 2 ^ nat (bitlen ?c)" by simp
  have b: "?y \<le> real_of_int ?c + 1" by simp
  from a b have h: "?y \<le> 2 ^ nat (bitlen ?c)" by linarith
  have lo': "1 / 2 ^ nat (bitlen ?c) \<le> \<bar>x\<bar>"
    using h x0 by (simp add: field_simps)
  have hi': "\<bar>x\<bar> < 1 / 2 ^ nat (bitlen ?c - 1)"
    using l x0 by (simp add: field_simps)
  have e: "exponent x = - bitlen ?c" using False by (simp add: exponent_def)
  show ?thesis
  proof (cases "bitlen ?c = 1")
    case True
    then show ?thesis using lo' hi' e by (simp add: pow2_def)
  next
    case False
    with b1 have "1 < bitlen ?c" by simp
    then have "nat (bitlen ?c - 1) = nat (- (- bitlen ?c + 1))" by simp
    then show ?thesis using lo' hi' e \<open>1 < bitlen ?c\<close> by (simp add: pow2_def)
  qed
qed

text \<open>The exponent computed from the bits is the one of the definition by the logarithm.\<close>

lemma exponent_is_floor_log: "x \<noteq> 0 \<Longrightarrow> exponent x = \<lfloor>log 2 \<bar>x\<bar>\<rfloor>"
proof -
  assume x: "x \<noteq> 0"
  have p: "pow2 k = 2 powr real_of_int k" for k
    by (simp add: pow2_def powr_int)
  from exponent_bounds[OF x] have "2 powr real_of_int (exponent x) \<le> \<bar>x\<bar> \<and> \<bar>x\<bar> < 2 powr (real_of_int (exponent x) + 1)"
    by (simp add: p)
  moreover have "0 < \<bar>x\<bar>" using x by simp
  ultimately have "\<lfloor>log 2 \<bar>x\<bar>\<rfloor> = exponent x"
    using floor_log_eq_powr_iff[of "\<bar>x\<bar>" 2 "exponent x"] by simp
  then show ?thesis by simp
qed

text \<open>Integers below \<open>2 ^ 24\<close> in magnitude are binary32 numbers: rounding leaves them.\<close>

lemma round32_int [simp]:
  assumes "x \<in> \<int>" "\<bar>x\<bar> < 16777216"
  shows "round32 x = Finite x"
proof (cases "x = 0")
  case True
  then show ?thesis by (simp add: round32_def)
next
  case False
  from assms(1) obtain n where n: "x = of_int n" by (auto elim: Ints_cases)
  with False have n1: "1 \<le> \<bar>n\<bar>" by simp
  then have "real_of_int 1 \<le> real_of_int \<bar>n\<bar>" by (simp only: of_int_le_iff)
  then have x1: "1 \<le> \<bar>x\<bar>" using n by simp
  have fl: "\<lfloor>\<bar>x\<bar>\<rfloor> = \<bar>n\<bar>" using n by (simp flip: of_int_abs)
  have "\<bar>n\<bar> < 2 ^ nat 24" using assms(2) n by simp
  then have "bitlen \<bar>n\<bar> \<le> 24" by (simp only: bitlen_le_iff_power) simp
  moreover have "bitlen \<bar>n\<bar> \<noteq> 0" using n1 by (simp add: bitlen_eq_zero_iff)
  moreover note bitlen_nonneg[of "\<bar>n\<bar>"]
  ultimately have e: "0 \<le> exponent x" "exponent x \<le> 23"
    using x1 fl by (simp_all add: exponent_def)
  define k where "k = nat (23 - exponent x)"
  have ulp: "pow2 (max (exponent x) (- 126) - 23) = 1 / 2 ^ k"
    using e by (auto simp: pow2_def k_def max_def)
  have q: "x / (1 / 2 ^ k) = of_int (n * 2 ^ k)" using n by simp
  have r: "of_int (round_half_even (x / (1 / 2 ^ k))) * (1 / 2 ^ k) = x"
    unfolding q round_half_even_of_int using n by simp
  have "\<bar>x\<bar> < 2 ^ 128" using assms(2) by simp
  then show ?thesis using False r ulp by (simp add: round32_def Let_def)
qed

text \<open>
  Rounding at work: the square of 4097 lies halfway between two binary32 numbers, and 0.1
  is not one.
\<close>

lemma round32_examples:
  "round32 16785409 = Finite 16785408"
  "round32 (1 / 10) = Finite (13421773 / 134217728)"
  by code_simp+

subsection \<open>Chain execution and the engine run\<close>

lemma map_update_same: "(map f xs)[i := f (xs ! i)] = map f xs"
  by (metis list_update_id map_update)

lemma RunAt_loop_frame:
  "RunAt_loop env chain s net = (r, net') \<Longrightarrow>
     operator_nodes net' = operator_nodes net \<and> net_name net' = net_name net \<and>
     runs net' = runs net \<and> time_per_op_type net' = time_per_op_type net \<and>
     length (time_per_op net') = length (time_per_op net) \<and>
     map cnt (time_per_op net') = map cnt (time_per_op net)"
proof (induction env chain s net arbitrary: r net' rule: RunAt_loop.induct)
  case (1 env success net)
  then show ?case by simp
next
  case (2 env idx chain success net)
  show ?case
  proof (cases "idx < 0 \<or> int (length (operator_nodes net)) \<le> idx")
    case True
    with 2(3) show ?thesis by simp
  next
    case oob: False
    show ?thesis
    proof (cases "runs net \<le> 1")
      case True
      with oob 2(3) have "RunAt_loop env chain (success \<and> Run env idx) (net\<lparr>executed := executed net @ [idx]\<rparr>) = (r, net')"
        by simp
      from 2(1)[OF oob True this] show ?thesis by simp
    next
      case meas: False
      show ?thesis
      proof (cases "int (length (time_per_op net)) > idx")
        case False
        with oob meas 2(3) show ?thesis by (auto simp: Let_def)
      next
        case True
        let ?net1 = "net\<lparr>executed := executed net @ [idx]\<rparr>"
        let ?net2 = "?net1\<lparr>time_per_op := (time_per_op ?net1)[nat idx := accumulate (MilliSeconds env idx) (time_per_op ?net1 ! nat idx)]\<rparr>"
        from oob meas True 2(3) have eq: "RunAt_loop env chain (success \<and> Run env idx) ?net2 = (r, net')"
          by (simp add: Let_def)
        have "\<not> \<not> idx < int (length (time_per_op ?net1))" using True by simp
        from 2(2)[OF oob meas refl refl refl this eq]
        show ?thesis using True oob
          by (simp add: map_update accumulate_def map_update_same)
      qed
    qed
  qed
qed

lemma RunAt_loop_warmup:
  "runs net \<le> 1 \<Longrightarrow> time_per_op (snd (RunAt_loop env chain s net)) = time_per_op net"
proof (induction chain arbitrary: s net)
  case Nil
  then show ?case by simp
next
  case (Cons idx chain)
  have "runs (net\<lparr>executed := executed net @ [idx]\<rparr>) \<le> 1" using Cons.prems by simp
  from Cons.IH[OF this] show ?case using Cons.prems by simp
qed

lemma RunAt_loop_in_range:
  "\<forall>idx\<in>set chain. in_range net idx \<Longrightarrow>
   RunAt_loop env chain s net =
     (Inr (s \<and> (\<forall>idx\<in>set chain. Run env idx)),
      net\<lparr>executed := executed net @ chain,
          time_per_op := (if runs net \<le> 1 then time_per_op net else timed env chain (time_per_op net))\<rparr>)"
proof (induction chain arbitrary: s net)
  case Nil
  then show ?case by (simp add: timed_def)
next
  case (Cons idx chain)
  from Cons.prems have r: "in_range net idx" and rest: "\<forall>j\<in>set chain. in_range net j" by simp_all
  show ?case
  proof (cases "runs net \<le> 1")
    case True
    let ?net1 = "net\<lparr>executed := executed net @ [idx]\<rparr>"
    have "\<forall>j\<in>set chain. in_range ?net1 j" using rest by (simp add: in_range_def)
    from Cons.IH[OF this, of "s \<and> Run env idx"] show ?thesis using True r
      by (auto simp: in_range_def)
  next
    case False
    let ?net2 = "net\<lparr>executed := executed net @ [idx],
       time_per_op := (time_per_op net)[nat idx := accumulate (MilliSeconds env idx) (time_per_op net ! nat idx)]\<rparr>"
    have "\<forall>j\<in>set chain. in_range ?net2 j" using rest by (simp add: in_range_def)
    from Cons.IH[OF this, of "s \<and> Run env idx"] show ?thesis using False r
      by (auto simp: in_range_def Let_def timed_def)
  qed
qed

lemma length_timed: "length (timed env idxs t) = length t"
  unfolding timed_def by (induction idxs arbitrary: t) simp_all

lemma timed_Cons:
  "timed env (idx # idxs) t = timed env idxs (t[nat idx := accumulate (MilliSeconds env idx) (t ! nat idx)])"
  by (simp add: timed_def)

lemma timed_append: "timed env (xs @ ys) t = timed env ys (timed env xs t)"
  by (simp add: timed_def)

lemma timed_nth:
  "\<forall>idx\<in>set idxs. 0 \<le> idx \<Longrightarrow> i < length t \<Longrightarrow>
   timed env idxs t ! i =
     (accumulate (MilliSeconds env (int i)) ^^ count_list idxs (int i)) (t ! i)"
proof (induction idxs arbitrary: t)
  case Nil
  then show ?case by (simp add: timed_def)
next
  case (Cons idx idxs)
  let ?t1 = "t[nat idx := accumulate (MilliSeconds env idx) (t ! nat idx)]"
  from Cons.prems have nn: "0 \<le> idx" and rest: "\<forall>j\<in>set idxs. 0 \<le> j" by simp_all
  have len: "i < length ?t1" using Cons.prems by simp
  note IH = Cons.IH[OF rest len]
  show ?case
  proof (cases "idx = int i")
    case True
    then have "nat idx = i" by simp
    then show ?thesis using IH Cons.prems(2) True
      by (simp add: timed_Cons funpow_swap1)
  next
    case False
    then have "nat idx \<noteq> i" using nn by auto
    then show ?thesis using IH False
      by (simp add: timed_Cons)
  qed
qed

lemma DAGNetBase_in_range:
  "\<forall>c\<in>set cs. \<forall>idx\<in>set c. in_range net idx \<Longrightarrow>
   DAGNetBase_DoRunAsync env cs net =
     (Inr (\<forall>c\<in>set cs. \<forall>idx\<in>set c. Run env idx),
      net\<lparr>executed := executed net @ concat cs,
          time_per_op := (if runs net \<le> 1 then time_per_op net else timed env (concat cs) (time_per_op net))\<rparr>)"
proof (induction cs arbitrary: net)
  case Nil
  then show ?case by (simp add: timed_def)
next
  case (Cons c cs)
  from Cons.prems have c: "\<forall>idx\<in>set c. in_range net idx" by simp
  let ?net1 = "net\<lparr>executed := executed net @ c,
          time_per_op := (if runs net \<le> 1 then time_per_op net else timed env c (time_per_op net))\<rparr>"
  have "\<forall>c\<in>set cs. \<forall>idx\<in>set c. in_range ?net1 idx"
    using Cons.prems by (auto simp: in_range_def length_timed)
  from Cons.IH[OF this] show ?case
    using RunAt_loop_in_range[OF c, of env True]
    by (auto simp: RunAt_def timed_append)
qed

lemma DAGNetBase_frame:
  "DAGNetBase_DoRunAsync env cs net = (r, net') \<Longrightarrow>
     operator_nodes net' = operator_nodes net \<and> net_name net' = net_name net \<and>
     runs net' = runs net \<and> time_per_op_type net' = time_per_op_type net \<and>
     length (time_per_op net') = length (time_per_op net) \<and>
     map cnt (time_per_op net') = map cnt (time_per_op net)"
proof (induction cs arbitrary: net r net')
  case Nil
  then show ?case by simp
next
  case (Cons c cs)
  obtain r1 n1 where c: "RunAt_loop env c True net = (r1, n1)" by (cases "RunAt_loop env c True net")
  note f1 = RunAt_loop_frame[OF c]
  show ?case
  proof (cases r1)
    case (Inl e)
    with c Cons.prems have "net' = n1" by (simp add: RunAt_def)
    with f1 show ?thesis by simp
  next
    case (Inr b)
    obtain r2 n2 where d: "DAGNetBase_DoRunAsync env cs n1 = (r2, n2)" by (cases "DAGNetBase_DoRunAsync env cs n1")
    from Cons.IH[OF d] have f2: "operator_nodes n2 = operator_nodes n1 \<and> net_name n2 = net_name n1 \<and>
     runs n2 = runs n1 \<and> time_per_op_type n2 = time_per_op_type n1 \<and>
     length (time_per_op n2) = length (time_per_op n1) \<and>
     map cnt (time_per_op n2) = map cnt (time_per_op n1)" .
    have "net' = n2" using Cons.prems c d Inr by (cases r2) (simp_all add: RunAt_def)
    with f1 f2 show ?thesis by simp
  qed
qed

lemma DAGNetBase_warmup:
  "runs net \<le> 1 \<Longrightarrow> time_per_op (snd (DAGNetBase_DoRunAsync env cs net)) = time_per_op net"
proof (induction cs arbitrary: net)
  case Nil
  then show ?case by simp
next
  case (Cons c cs)
  obtain r1 n1 where c: "RunAt_loop env c True net = (r1, n1)" by (cases "RunAt_loop env c True net")
  have t1: "time_per_op n1 = time_per_op net" using RunAt_loop_warmup[OF Cons.prems, of env c True] c by simp
  have "runs n1 \<le> 1" using RunAt_loop_frame[OF c] Cons.prems by simp
  from Cons.IH[OF this] t1 c show ?case
    by (cases r1) (auto simp: RunAt_def split: prod.splits sum.splits)
qed

subsection \<open>Frames of the mutating calls\<close>

lemma RunAt_frame:
  "operator_nodes (snd (RunAt env chain net)) = operator_nodes net \<and>
   net_name (snd (RunAt env chain net)) = net_name net \<and>
   runs (snd (RunAt env chain net)) = runs net \<and>
   time_per_op_type (snd (RunAt env chain net)) = time_per_op_type net \<and>
   length (time_per_op (snd (RunAt env chain net))) = length (time_per_op net) \<and>
   map cnt (time_per_op (snd (RunAt env chain net))) = map cnt (time_per_op net)"
  using RunAt_loop_frame[of env chain True net "fst (RunAt env chain net)" "snd (RunAt env chain net)"]
  by (simp add: RunAt_def)

lemma DoRunAsync_frame:
  "operator_nodes (snd (DoRunAsync env cs net)) = operator_nodes net \<and>
   net_name (snd (DoRunAsync env cs net)) = net_name net \<and>
   runs (snd (DoRunAsync env cs net)) = runs net + 1 \<and>
   length (time_per_op (snd (DoRunAsync env cs net))) = length (time_per_op net) \<and>
   map cnt (time_per_op (snd (DoRunAsync env cs net))) = map cnt (time_per_op net)"
proof -
  let ?net1 = "net\<lparr>runs := runs net + 1\<rparr>"
  obtain r n2 where b: "DAGNetBase_DoRunAsync env cs ?net1 = (r, n2)"
    by (cases "DAGNetBase_DoRunAsync env cs ?net1")
  from DAGNetBase_frame[OF b] show ?thesis
    using b by (cases r) (simp_all add: DoRunAsync_def Let_def)
qed

lemma lifetime_frame:
  "operator_nodes (lifetime calls net) = operator_nodes net \<and>
   net_name (lifetime calls net) = net_name net \<and>
   length (time_per_op (lifetime calls net)) = length (time_per_op net) \<and>
   map cnt (time_per_op (lifetime calls net)) = map cnt (time_per_op net)"
proof (induction calls arbitrary: net)
  case Nil
  then show ?case by (simp add: lifetime_def)
next
  case (Cons c calls)
  have step: "operator_nodes (apply_call c net) = operator_nodes net \<and>
   net_name (apply_call c net) = net_name net \<and>
   length (time_per_op (apply_call c net)) = length (time_per_op net) \<and>
   map cnt (time_per_op (apply_call c net)) = map cnt (time_per_op net)"
    by (cases c) (simp_all add: RunAt_frame DoRunAsync_frame)
  have "lifetime (c # calls) net = lifetime calls (apply_call c net)"
    by (simp add: lifetime_def)
  with Cons.IH[of "apply_call c net"] step show ?case by simp
qed

text \<open>
  Claim C7. For every number of nodes, construction gives \<^verbatim>\<open>time_per_op_\<close> exactly one entry
  per node, each with \<open>sum = 0\<close>, \<open>sqrsum = 0\<close> and \<open>cnt = 0\<close>, and no sequence of runs and
  chain executions changes its length afterwards.
\<close>

theorem construction_sizes_and_zeroes:
  "length (time_per_op (ProfDAGNet nm nodes)) = length nodes \<and>
   (\<forall>s\<in>set (time_per_op (ProfDAGNet nm nodes)). s = \<lparr>sum_v = Finite 0, sqrsum = Finite 0, cnt = 0\<rparr>) \<and>
   length (time_per_op (lifetime calls (ProfDAGNet nm nodes))) = length nodes"
proof -
  have "length (time_per_op (lifetime calls (ProfDAGNet nm nodes))) = length (time_per_op (ProfDAGNet nm nodes))"
    using lifetime_frame[of calls "ProfDAGNet nm nodes"] by simp
  then show ?thesis by (simp add: ProfDAGNet_def Stats_zero_def)
qed

lemma PrintStats_per_node:
  assumes "1 < runs net" and "length (time_per_op net) = length (operator_nodes net)"
  shows "map_sum (\<lambda>e. e) fst (PrintStats net) =
           Inr (map (\<lambda>idx.
                  (idx, print_name (operator_nodes net ! idx), def_type (operator_nodes net ! idx),
                   fdiv (sum_v (time_per_op net ! idx)) (runs net - 1),
                   fsqrt (fsub (fdiv (sqrsum (time_per_op net ! idx)) (runs net - 1))
                            (fmul (fdiv (sum_v (time_per_op net ! idx)) (runs net - 1))
                                  (fdiv (sum_v (time_per_op net ! idx)) (runs net - 1))))))
                [0..<length (operator_nodes net)])"
  using assms by (simp add: PrintStats_def Let_def)

text \<open>
  Claim C10. No operation increments the \<open>cnt\<close> field of an entry of \<^verbatim>\<open>time_per_op_\<close>: chain
  execution and full runs leave the \<open>cnt\<close> fields as they are, so they are 0 during the whole
  lifetime of a net. The mean and the deviation of a report record are
  \<open>sum / (runs - 1)\<close> and \<open>sqrt (sqrsum / (runs - 1) - mean * mean)\<close>, whatever \<open>cnt\<close> is, and
  \<^verbatim>\<open>PrintStats\<close>, when its two checks pass, prints for every node the mean and the deviation
  computed in the same way from \<open>runs - 1\<close>.
\<close>

theorem per_op_cnt_never_incremented:
  "(\<forall>s\<in>set (time_per_op (lifetime calls (ProfDAGNet nm nodes))). cnt s = 0) \<and>
   map cnt (time_per_op (snd (RunAt env chain net))) = map cnt (time_per_op net) \<and>
   map cnt (time_per_op (snd (DoRunAsync env exec_chains net))) = map cnt (time_per_op net) \<and>
   ProtoMsg r (n, s) =
     \<lparr>name = n,
      mean = fdiv (sum_v s) (r - 1),
      stddev = fsqrt (fsub (fdiv (sqrsum s) (r - 1))
                        (fmul (fdiv (sum_v s) (r - 1)) (fdiv (sum_v s) (r - 1))))\<rparr> \<and>
   ProtoMsg r (n, s\<lparr>cnt := c\<rparr>) = ProtoMsg r (n, s) \<and>
   (1 < runs net \<and> length (time_per_op net) = length (operator_nodes net) \<longrightarrow>
      map_sum (\<lambda>e. e) fst (PrintStats net) =
        Inr (map (\<lambda>idx.
               (idx, print_name (operator_nodes net ! idx), def_type (operator_nodes net ! idx),
                fdiv (sum_v (time_per_op net ! idx)) (runs net - 1),
                fsqrt (fsub (fdiv (sqrsum (time_per_op net ! idx)) (runs net - 1))
                         (fmul (fdiv (sum_v (time_per_op net ! idx)) (runs net - 1))
                               (fdiv (sum_v (time_per_op net ! idx)) (runs net - 1))))))
             [0..<length (operator_nodes net)]))"
proof -
  have "map cnt (time_per_op (lifetime calls (ProfDAGNet nm nodes))) = map cnt (time_per_op (ProfDAGNet nm nodes))"
    using lifetime_frame[of calls "ProfDAGNet nm nodes"] by simp
  also have "\<dots> = replicate (length nodes) 0" by (simp add: ProfDAGNet_def Stats_zero_def)
  finally have "set (map cnt (time_per_op (lifetime calls (ProfDAGNet nm nodes)))) \<subseteq> {0}"
    by (simp only: set_replicate_conv_if) simp
  then have a: "\<forall>s\<in>set (time_per_op (lifetime calls (ProfDAGNet nm nodes))). cnt s = 0"
    by auto
  have p: "ProtoMsg r (n, s) =
     \<lparr>name = n,
      mean = fdiv (sum_v s) (r - 1),
      stddev = fsqrt (fsub (fdiv (sqrsum s) (r - 1))
                        (fmul (fdiv (sum_v s) (r - 1)) (fdiv (sum_v s) (r - 1))))\<rparr>"
    "ProtoMsg r (n, s\<lparr>cnt := c\<rparr>) = ProtoMsg r (n, s)"
    by (simp_all add: ProtoMsg_def Let_def)
  show ?thesis
    using a p PrintStats_per_node[of net]
    by (simp add: RunAt_frame DoRunAsync_frame)
qed

text \<open>
  Claim C4. During the warm-up run (\<open>runs \<le> 1\<close> inside \<^verbatim>\<open>RunAt\<close>, that is \<open>runs \<le> 0\<close>
  before \<^verbatim>\<open>DoRunAsync\<close> increments it) a chain runs its operators (every operator of a chain
  within range, in order, the flag being the conjunction of their results) and neither
  \<^verbatim>\<open>time_per_op_\<close> nor \<^verbatim>\<open>time_per_op_type_\<close> changes; after the first run of a fresh net the
  number of measured runs, \<open>runs - 1\<close>, is 0.
\<close>

theorem warmup_mutates_no_stats:
  "(runs net \<le> 1 \<longrightarrow>
      time_per_op (snd (RunAt env chain net)) = time_per_op net \<and>
      time_per_op_type (snd (RunAt env chain net)) = time_per_op_type net \<and>
      ((\<forall>idx\<in>set chain. in_range net idx) \<longrightarrow>
         fst (RunAt env chain net) = Inr (\<forall>idx\<in>set chain. Run env idx) \<and>
         executed (snd (RunAt env chain net)) = executed net @ chain)) \<and>
   (runs net \<le> 0 \<longrightarrow>
      time_per_op (snd (DoRunAsync env exec_chains net)) = time_per_op net \<and>
      time_per_op_type (snd (DoRunAsync env exec_chains net)) = time_per_op_type net \<and>
      runs (snd (DoRunAsync env exec_chains net)) = runs net + 1 \<and>
      (runs net = 0 \<longrightarrow> runs (snd (DoRunAsync env exec_chains net)) - 1 = 0))"
proof -
  have a: "time_per_op (snd (RunAt env chain net)) = time_per_op net" if "runs net \<le> 1"
    using RunAt_loop_warmup[OF that] by (simp add: RunAt_def)
  have b: "fst (RunAt env chain net) = Inr (\<forall>idx\<in>set chain. Run env idx) \<and>
         executed (snd (RunAt env chain net)) = executed net @ chain"
    if "\<forall>idx\<in>set chain. in_range net idx"
    using RunAt_loop_in_range[OF that, of env True] by (simp add: RunAt_def)
  have c: "time_per_op (snd (DoRunAsync env exec_chains net)) = time_per_op net \<and>
      time_per_op_type (snd (DoRunAsync env exec_chains net)) = time_per_op_type net" if "runs net \<le> 0"
  proof -
    let ?net1 = "net\<lparr>runs := runs net + 1\<rparr>"
    have r1: "runs ?net1 \<le> 1" using that by simp
    have d: "DoRunAsync env exec_chains net = DAGNetBase_DoRunAsync env exec_chains ?net1"
      using r1 by (simp add: DoRunAsync_def Let_def)
    obtain r n2 where e: "DAGNetBase_DoRunAsync env exec_chains ?net1 = (r, n2)"
      by (cases "DAGNetBase_DoRunAsync env exec_chains ?net1")
    from DAGNetBase_frame[OF e] DAGNetBase_warmup[OF r1, of env exec_chains] d e
    show ?thesis by simp
  qed
  show ?thesis using a b c by (simp add: RunAt_frame DoRunAsync_frame)
qed

text \<open>
  Claim C5. For a chain whose indices are within range, the flag returned by \<^verbatim>\<open>RunAt\<close> is
  the conjunction of the results of all its operators, every operator of the chain is run
  (whatever the earlier ones returned), and on a measured run the time of every one of them
  is accumulated into its entry (\<^verbatim>\<open>sum += spent; sqrsum += spent * spent\<close> in \<^verbatim>\<open>float\<close>, which
  is \<open>accumulate\<close>), once per occurrence of the node in the chain and into no other entry.
  In particular a chain with a failing operator returns false.
\<close>

theorem chain_success_is_conjunction:
  assumes "\<forall>idx\<in>set chain. in_range net idx"
  shows "fst (RunAt env chain net) = Inr (\<forall>idx\<in>set chain. Run env idx) \<and>
         executed (snd (RunAt env chain net)) = executed net @ chain \<and>
         (1 < runs net \<longrightarrow>
            (\<forall>i<length (time_per_op net).
               time_per_op (snd (RunAt env chain net)) ! i =
                 (accumulate (MilliSeconds env (int i)) ^^ count_list chain (int i))
                   (time_per_op net ! i)))"
proof -
  have nn: "\<forall>idx\<in>set chain. 0 \<le> idx" using assms by (simp add: in_range_def)
  show ?thesis
    using RunAt_loop_in_range[OF assms, of env True] timed_nth[OF nn, of _ "time_per_op net" env]
    by (simp add: RunAt_def)
qed

lemma warmed_up_eq:
  "warmed_up = \<lparr>net_name = ''net'', operator_nodes = [node_of_type ''Add'', node_of_type ''Add''],
     time_per_op = [Stats_zero, Stats_zero], time_per_op_type = [], runs = 1, executed = [0, 1]\<rparr>"
  by (simp add: warmed_up_def example_net_def ProfDAGNet_def DoRunAsync_def Let_def RunAt_def
        example_env_def)

text \<open>C5 on a measured run where the operator of node 0 fails: node 1 is still run and timed.\<close>

theorem chain_success_is_conjunction_witness:
  "in_range in_second_run 0 \<and> in_range in_second_run 1 \<and>
   fst (RunAt (example_env False 3 5) [0, 1] in_second_run) = Inr False \<and>
   executed (snd (RunAt (example_env False 3 5) [0, 1] in_second_run)) = [0, 1, 0, 1] \<and>
   time_per_op (snd (RunAt (example_env False 3 5) [0, 1] in_second_run)) ! 0 =
     \<lparr>sum_v = Finite 3, sqrsum = Finite 9, cnt = 0\<rparr> \<and>
   time_per_op (snd (RunAt (example_env False 3 5) [0, 1] in_second_run)) ! 1 =
     \<lparr>sum_v = Finite 5, sqrsum = Finite 25, cnt = 0\<rparr>"
proof -
  have h: "\<forall>idx\<in>set [0, 1]. in_range in_second_run idx"
    by (simp add: in_second_run_def warmed_up_eq in_range_def)
  show ?thesis
    using h chain_success_is_conjunction[OF h, of "example_env False 3 5"]
    by (simp add: in_second_run_def warmed_up_eq example_env_def Stats_zero_def accumulate_def)
qed

text \<open>C4 at the fresh example net.\<close>

theorem warmup_mutates_no_stats_witness:
  "runs example_net \<le> 1 \<and> runs example_net \<le> 0 \<and> runs example_net = 0 \<and>
   in_range example_net 0 \<and> in_range example_net 1 \<and>
   time_per_op (snd (RunAt (example_env True 3 5) [0, 1] example_net)) = [Stats_zero, Stats_zero] \<and>
   fst (RunAt (example_env True 3 5) [0, 1] example_net) = Inr True \<and>
   executed (snd (RunAt (example_env True 3 5) [0, 1] example_net)) = [0, 1] \<and>
   time_per_op (snd (DoRunAsync (example_env True 3 5) [[0, 1]] example_net)) = [Stats_zero, Stats_zero] \<and>
   time_per_op_type (snd (DoRunAsync (example_env True 3 5) [[0, 1]] example_net)) = [] \<and>
   runs (snd (DoRunAsync (example_env True 3 5) [[0, 1]] example_net)) - 1 = 0"
proof -
  have h: "runs example_net \<le> 1 \<and> runs example_net \<le> 0 \<and> runs example_net = 0 \<and>
     (\<forall>idx\<in>set [0, 1]. in_range example_net idx)"
    by (simp add: example_net_def ProfDAGNet_def in_range_def)
  have e: "time_per_op example_net = [Stats_zero, Stats_zero]" "time_per_op_type example_net = []"
    "executed example_net = []" "runs example_net = 0"
    by (simp_all add: example_net_def ProfDAGNet_def)
  show ?thesis
    using h warmup_mutates_no_stats[of example_net "example_env True 3 5" "[0, 1]" "[[0, 1]]"]
    by (simp add: e example_env_def)
qed

text \<open>C7 at a net of two nodes, after a warm-up run and a measured run.\<close>

theorem construction_sizes_and_zeroes_witness:
  "length (time_per_op (ProfDAGNet ''net'' [node_of_type ''Add'', node_of_type ''Relu''])) = 2 \<and>
   time_per_op (ProfDAGNet ''net'' [node_of_type ''Add'', node_of_type ''Relu'']) =
     [\<lparr>sum_v = Finite 0, sqrsum = Finite 0, cnt = 0\<rparr>, \<lparr>sum_v = Finite 0, sqrsum = Finite 0, cnt = 0\<rparr>] \<and>
   length (time_per_op (lifetime [Call_DoRunAsync (example_env True 1 1) [[0, 1]],
                                   Call_DoRunAsync (example_env True 3 5) [[0], [1]]]
             (ProfDAGNet ''net'' [node_of_type ''Add'', node_of_type ''Relu'']))) = 2"
  using construction_sizes_and_zeroes[of "''net''" "[node_of_type ''Add'', node_of_type ''Relu'']"
      "[Call_DoRunAsync (example_env True 1 1) [[0, 1]], Call_DoRunAsync (example_env True 3 5) [[0], [1]]]"]
  by (simp add: ProfDAGNet_def Stats_zero_def)

lemma after_measured_eq:
  "after_measured = \<lparr>net_name = ''net'', operator_nodes = [node_of_type ''Add'', node_of_type ''Add''],
     time_per_op = [\<lparr>sum_v = Finite 3, sqrsum = Finite 9, cnt = 0\<rparr>, \<lparr>sum_v = Finite 5, sqrsum = Finite 25, cnt = 0\<rparr>],
     time_per_op_type = [(''Add'', \<lparr>sum_v = Finite 8, sqrsum = Finite 64, cnt = 2\<rparr>)], runs = 2, executed = [0, 1, 0, 1]\<rparr>"
  by (simp add: after_measured_def warmed_up_eq DoRunAsync_def Let_def RunAt_def
        example_env_def Stats_zero_def accumulate_def aggregate_def collect_step_def fold_item_def
        modify_at_def index_or_default_def items_def node_of_type_def)

text \<open>C10 after a warm-up run and a measured run of the example net.\<close>

theorem per_op_cnt_never_incremented_witness:
  "cnt (time_per_op (lifetime [Call_DoRunAsync (example_env True 1 1) [[0, 1]],
                               Call_DoRunAsync (example_env False 3 5) [[0], [1]]] example_net) ! 0) = 0 \<and>
   mean (ProtoMsg 3 (''x'', \<lparr>sum_v = Finite 10, sqrsum = Finite 52, cnt = 0\<rparr>)) = Finite 5 \<and>
   stddev (ProtoMsg 3 (''x'', \<lparr>sum_v = Finite 10, sqrsum = Finite 52, cnt = 0\<rparr>)) = Finite 1 \<and>
   1 < runs after_measured \<and>
   length (time_per_op after_measured) = length (operator_nodes after_measured) \<and>
   map_sum (\<lambda>e. e) fst (PrintStats after_measured) =
     Inr [(0, ''NO_OUTPUT'', ''Add'', Finite 3, Finite 0),
          (1, ''NO_OUTPUT'', ''Add'', Finite 5, Finite 0)]"
proof -
  let ?calls = "[Call_DoRunAsync (example_env True 1 1) [[0, 1]],
                 Call_DoRunAsync (example_env False 3 5) [[0], [1]]]"
  have l: "lifetime ?calls example_net = after_measured"
    by (simp add: lifetime_def after_measured_def warmed_up_def)
  have m: "time_per_op after_measured ! 0 \<in> set (time_per_op after_measured)"
    by (simp add: after_measured_eq)
  have h: "1 < runs after_measured"
    "length (time_per_op after_measured) = length (operator_nodes after_measured)"
    by (simp_all add: after_measured_eq)
  note t = per_op_cnt_never_incremented[of ?calls "''net''" "[node_of_type ''Add'', node_of_type ''Add'']"
        "example_env True 1 1" "[]" after_measured "[]" 3 "''x''"
        "\<lparr>sum_v = Finite 10, sqrsum = Finite 52, cnt = 0\<rparr>" 0]
  have a: "cnt (time_per_op (lifetime ?calls example_net) ! 0) = 0"
    using t[THEN conjunct1] l m by (simp add: example_net_def)
  have b: "mean (ProtoMsg 3 (''x'', \<lparr>sum_v = Finite 10, sqrsum = Finite 52, cnt = 0\<rparr>)) = Finite 5"
    "stddev (ProtoMsg 3 (''x'', \<lparr>sum_v = Finite 10, sqrsum = Finite 52, cnt = 0\<rparr>)) = Finite 1"
    using t[THEN conjunct2, THEN conjunct2, THEN conjunct2, THEN conjunct1] by simp_all
  have c: "map_sum (\<lambda>e. e) fst (PrintStats after_measured) =
     Inr [(0, ''NO_OUTPUT'', ''Add'', Finite 3, Finite 0),
          (1, ''NO_OUTPUT'', ''Add'', Finite 5, Finite 0)]"
    using t[THEN conjunct2, THEN conjunct2, THEN conjunct2, THEN conjunct2, THEN conjunct2] h
    by (simp add: after_measured_eq print_name_def node_of_type_def)
  show ?thesis using a b c h by simp
qed

subsection \<open>Aggregation per operator type\<close>

lemma index_modify_at:
  "index_or_default d (modify_at d k f m) k' =
     (if k' = k then f (index_or_default d m k) else index_or_default d m k')"
  by (simp add: index_or_default_def modify_at_def update_conv')

lemma distinct_modify_at:
  "distinct (map fst m) \<Longrightarrow> distinct (map fst (modify_at d k f m))"
  by (simp add: modify_at_def distinct_update)

lemma keys_modify_at: "fst ` set (modify_at d k f m) = insert k (fst ` set m)"
  by (simp add: modify_at_def dom_update)

lemma collect_loop:
  "index_or_default (Finite 0) (fst (fold (collect_step nodes live snapshot) idxs acc)) T =
     fold (\<lambda>idx t. if def_type (nodes ! idx) = T then fadd t (delta live snapshot idx) else t)
       idxs (index_or_default (Finite 0) (fst acc) T) \<and>
   index_or_default Stats_zero (snd (fold (collect_step nodes live snapshot) idxs acc)) T =
     (index_or_default Stats_zero (snd acc) T)
       \<lparr>cnt := cnt (index_or_default Stats_zero (snd acc) T) +
                length (filter (\<lambda>idx. def_type (nodes ! idx) = T) idxs)\<rparr> \<and>
   (distinct (map fst (fst acc)) \<longrightarrow>
      distinct (map fst (fst (fold (collect_step nodes live snapshot) idxs acc)))) \<and>
   fst ` set (snd (fold (collect_step nodes live snapshot) idxs acc)) =
     fst ` set (snd acc) \<union> (\<lambda>idx. def_type (nodes ! idx)) ` set idxs \<and>
   fst ` set (fst (fold (collect_step nodes live snapshot) idxs acc)) =
     fst ` set (fst acc) \<union> (\<lambda>idx. def_type (nodes ! idx)) ` set idxs"
proof (induction idxs arbitrary: acc)
  case Nil
  then show ?case by simp
next
  case (Cons idx idxs)
  let ?acc1 = "collect_step nodes live snapshot idx acc"
  have s1: "index_or_default (Finite 0) (fst ?acc1) T =
      (if def_type (nodes ! idx) = T
       then fadd (index_or_default (Finite 0) (fst acc) T) (delta live snapshot idx)
       else index_or_default (Finite 0) (fst acc) T)"
    by (simp add: collect_step_def Let_def index_modify_at delta_def)
  have s2: "index_or_default Stats_zero (snd ?acc1) T =
      (index_or_default Stats_zero (snd acc) T)
        \<lparr>cnt := cnt (index_or_default Stats_zero (snd acc) T) + (if def_type (nodes ! idx) = T then 1 else 0)\<rparr>"
    by (simp add: collect_step_def Let_def index_modify_at)
  have s3: "distinct (map fst (fst acc)) \<longrightarrow> distinct (map fst (fst ?acc1))"
    by (simp add: collect_step_def Let_def distinct_modify_at)
  have s4: "fst ` set (snd ?acc1) = insert (def_type (nodes ! idx)) (fst ` set (snd acc))"
    by (simp add: collect_step_def Let_def keys_modify_at)
  have s5: "fst ` set (fst ?acc1) = insert (def_type (nodes ! idx)) (fst ` set (fst acc))"
    by (simp add: collect_step_def Let_def keys_modify_at)
  from Cons.IH[of ?acc1] show ?case
    by (simp add: s1 s2 s3 s4 s5)
qed

lemma fold_item_loop:
  "distinct (map fst xs) \<Longrightarrow>
   index_or_default Stats_zero (fold fold_item xs m) T =
     (case map_of xs T of
        None \<Rightarrow> index_or_default Stats_zero m T
      | Some v \<Rightarrow> (index_or_default Stats_zero m T)
                    \<lparr>sum_v := fadd (sum_v (index_or_default Stats_zero m T)) v,
                     sqrsum := fadd (sqrsum (index_or_default Stats_zero m T)) (fmul v v)\<rparr>)"
proof (induction xs arbitrary: m)
  case Nil
  then show ?case by simp
next
  case (Cons x xs)
  obtain k v where x: "x = (k, v)" by (cases x)
  from Cons.prems x have d: "distinct (map fst xs)" and nk: "k \<notin> fst ` set xs" by simp_all
  from nk have none: "map_of xs k = None" by (simp add: map_of_eq_None_iff)
  have fi: "index_or_default Stats_zero (fold_item (k, v) m) T =
      (if T = k then (index_or_default Stats_zero m k)
                       \<lparr>sum_v := fadd (sum_v (index_or_default Stats_zero m k)) v,
                        sqrsum := fadd (sqrsum (index_or_default Stats_zero m k)) (fmul v v)\<rparr>
       else index_or_default Stats_zero m T)"
    by (simp add: fold_item_def index_modify_at)
  note IH = Cons.IH[OF d, of "fold_item (k, v) m"]
  show ?case
    unfolding x
  proof (cases "T = k")
    case True
    then show "index_or_default Stats_zero (fold fold_item ((k, v) # xs) m) T =
      (case map_of ((k, v) # xs) T of
        None \<Rightarrow> index_or_default Stats_zero m T
      | Some v \<Rightarrow> (index_or_default Stats_zero m T)
                    \<lparr>sum_v := fadd (sum_v (index_or_default Stats_zero m T)) v,
                     sqrsum := fadd (sqrsum (index_or_default Stats_zero m T)) (fmul v v)\<rparr>)"
      using IH none fi by simp
  next
    case False
    then show "index_or_default Stats_zero (fold fold_item ((k, v) # xs) m) T =
      (case map_of ((k, v) # xs) T of
        None \<Rightarrow> index_or_default Stats_zero m T
      | Some v \<Rightarrow> (index_or_default Stats_zero m T)
                    \<lparr>sum_v := fadd (sum_v (index_or_default Stats_zero m T)) v,
                     sqrsum := fadd (sqrsum (index_or_default Stats_zero m T)) (fmul v v)\<rparr>)"
      using IH fi by (simp cong: option.case_cong)
  qed
qed

lemma fold_item_keys:
  "fst ` set xs \<subseteq> fst ` set m \<Longrightarrow> fst ` set (fold fold_item xs m) = fst ` set m"
proof (induction xs arbitrary: m)
  case Nil
  then show ?case by simp
next
  case (Cons x xs)
  have k: "fst ` set (fold_item x m) = fst ` set m"
    using Cons.prems by (auto simp: fold_item_def keys_modify_at)
  have "fst ` set xs \<subseteq> fst ` set (fold_item x m)" using Cons.prems k by auto
  from Cons.IH[OF this] k show ?case by simp
qed

lemma map_of_items: "distinct (map fst m) \<Longrightarrow> map_of (items m) = map_of m"
proof -
  assume d: "distinct (map fst m)"
  then have "distinct (map fst (items m))"
    by (simp add: items_def distinct_map)
  moreover have "set (items m) = set m" by (simp add: items_def)
  ultimately show ?thesis using d by (simp add: map_of_inject_set)
qed

lemma instance_count_idx:
  "length (filter (\<lambda>idx. def_type (nodes ! idx) = T) [0..<length nodes]) = instance_count nodes T"
proof -
  have "filter (\<lambda>node. def_type node = T) (map ((!) nodes) [0..<length nodes]) =
        map ((!) nodes) (filter (\<lambda>idx. def_type (nodes ! idx) = T) [0..<length nodes])"
    by (simp add: filter_map comp_def)
  then have "length (filter (\<lambda>node. def_type node = T) (map ((!) nodes) [0..<length nodes])) =
        length (filter (\<lambda>idx. def_type (nodes ! idx) = T) [0..<length nodes])"
    by simp
  then show ?thesis by (simp add: instance_count_def map_nth)
qed

lemma aggregate_closed_form:
  "index_or_default Stats_zero (aggregate nodes live snapshot per_type) T =
     (if T \<in> def_type ` set nodes
      then add_run_total (run_total nodes live snapshot T) (instance_count nodes T)
             (index_or_default Stats_zero per_type T)
      else index_or_default Stats_zero per_type T)"
proof -
  let ?acc = "fold (collect_step nodes live snapshot) [0..<length nodes] ([], per_type)"
  note c = collect_loop[of nodes live snapshot "[0..<length nodes]" "([], per_type)" T]
  have tot: "index_or_default (Finite 0) (fst ?acc) T = run_total nodes live snapshot T"
    using c by (simp add: run_total_def index_or_default_def)
  have cn: "index_or_default Stats_zero (snd ?acc) T =
      (index_or_default Stats_zero per_type T)
        \<lparr>cnt := cnt (index_or_default Stats_zero per_type T) + instance_count nodes T\<rparr>"
    using c by (simp add: instance_count_idx)
  have "(\<lambda>idx. def_type (nodes ! idx)) ` set [0..<length nodes] =
        def_type ` ((!) nodes ` {0..<length nodes})"
    by (simp add: image_image)
  then have ty: "(\<lambda>idx. def_type (nodes ! idx)) ` set [0..<length nodes] = def_type ` set nodes"
    by (simp add: nth_image)
  have keys: "fst ` set (fst ?acc) = def_type ` set nodes"
    using c ty by simp
  have d: "distinct (map fst (fst ?acc))" using c by simp
  have di: "distinct (map fst (items (fst ?acc)))"
    using d by (simp add: items_def distinct_map)
  have mo: "map_of (items (fst ?acc)) = map_of (fst ?acc)"
    using d by (rule map_of_items)
  have f: "index_or_default Stats_zero (fold fold_item (items (fst ?acc)) (snd ?acc)) T =
     (case map_of (fst ?acc) T of
        None \<Rightarrow> index_or_default Stats_zero (snd ?acc) T
      | Some v \<Rightarrow> (index_or_default Stats_zero (snd ?acc) T)
                    \<lparr>sum_v := fadd (sum_v (index_or_default Stats_zero (snd ?acc) T)) v,
                     sqrsum := fadd (sqrsum (index_or_default Stats_zero (snd ?acc) T)) (fmul v v)\<rparr>)"
    using fold_item_loop[OF di, of "snd ?acc" T] unfolding mo .
  show ?thesis
  proof (cases "map_of (fst ?acc) T")
    case None
    then have nt: "T \<notin> def_type ` set nodes"
      using keys by (simp add: map_of_eq_None_iff)
    then have "instance_count nodes T = 0"
      by (auto simp: instance_count_def filter_empty_conv)
    with None nt f cn show ?thesis by (simp add: aggregate_def Let_def)
  next
    case (Some v)
    then have it: "T \<in> def_type ` set nodes"
      using keys by (metis map_of_eq_None_iff option.distinct(1))
    from Some tot have v: "v = run_total nodes live snapshot T"
      by (simp add: index_or_default_def)
    from Some it f cn v show ?thesis
      by (simp add: aggregate_def Let_def add_run_total_def)
  qed
qed

lemma aggregate_keys:
  "fst ` set (aggregate nodes live snapshot per_type) = fst ` set per_type \<union> def_type ` set nodes"
proof -
  let ?acc = "fold (collect_step nodes live snapshot) [0..<length nodes] ([], per_type)"
  note c = collect_loop[of nodes live snapshot "[0..<length nodes]" "([], per_type)" undefined]
  have k2: "fst ` set (snd ?acc) = fst ` set per_type \<union> (\<lambda>idx. def_type (nodes ! idx)) ` set [0..<length nodes]"
    using c by simp
  have "(\<lambda>idx. def_type (nodes ! idx)) ` set [0..<length nodes] =
        def_type ` ((!) nodes ` {0..<length nodes})"
    by (simp add: image_image)
  then have "(\<lambda>idx. def_type (nodes ! idx)) ` set [0..<length nodes] = def_type ` set nodes"
    by (simp add: nth_image)
  with k2 have k3: "fst ` set (snd ?acc) = fst ` set per_type \<union> def_type ` set nodes" by simp
  have k1: "fst ` set (items (fst ?acc)) \<subseteq> fst ` set (snd ?acc)"
    using c by (simp add: items_def)
  show ?thesis using fold_item_keys[OF k1] k3 by (simp add: aggregate_def Let_def)
qed

lemma DoRunAsync_warmup:
  assumes "runs net \<le> 0"
  shows "time_per_op (snd (DoRunAsync env cs net)) = time_per_op net \<and>
         time_per_op_type (snd (DoRunAsync env cs net)) = time_per_op_type net"
proof -
  let ?net1 = "net\<lparr>runs := runs net + 1\<rparr>"
  have r1: "runs ?net1 \<le> 1" using assms by simp
  have d: "DoRunAsync env cs net = DAGNetBase_DoRunAsync env cs ?net1"
    using r1 by (simp add: DoRunAsync_def Let_def)
  obtain r n2 where e: "DAGNetBase_DoRunAsync env cs ?net1 = (r, n2)"
    by (cases "DAGNetBase_DoRunAsync env cs ?net1")
  from DAGNetBase_frame[OF e] DAGNetBase_warmup[OF r1, of env cs] d e
  show ?thesis by simp
qed

lemma DoRunAsync_measured:
  assumes "1 \<le> runs net"
    and "length (time_per_op net) = length (operator_nodes net)"
    and "DAGNetBase_DoRunAsync env cs (net\<lparr>runs := runs net + 1\<rparr>) = (Inr ok, live)"
  shows "DoRunAsync env cs net =
           (Inr ok,
            live\<lparr>time_per_op_type :=
              aggregate (operator_nodes net) (time_per_op live) (time_per_op net) (time_per_op_type net)\<rparr>)"
proof -
  from DAGNetBase_frame[OF assms(3)]
  have "operator_nodes live = operator_nodes net" "time_per_op_type live = time_per_op_type net"
    by simp_all
  then show ?thesis using assms by (simp add: DoRunAsync_def Let_def)
qed

lemma DoRunAsync_measured_in_range:
  assumes "1 \<le> runs net"
    and "length (time_per_op net) = length (operator_nodes net)"
    and "\<forall>idx\<in>set (concat cs). 0 \<le> idx \<and> idx < int (length (operator_nodes net))"
  shows "time_per_op (snd (DoRunAsync env cs net)) = timed env (concat cs) (time_per_op net) \<and>
         fst (DoRunAsync env cs net) = Inr (\<forall>c\<in>set cs. \<forall>idx\<in>set c. Run env idx)"
proof -
  let ?net1 = "net\<lparr>runs := runs net + 1\<rparr>"
  have "\<forall>c\<in>set cs. \<forall>idx\<in>set c. in_range ?net1 idx"
    using assms(2,3) by (auto simp: in_range_def)
  from DAGNetBase_in_range[OF this, of env]
  have b: "DAGNetBase_DoRunAsync env cs ?net1 =
     (Inr (\<forall>c\<in>set cs. \<forall>idx\<in>set c. Run env idx),
      ?net1\<lparr>executed := executed ?net1 @ concat cs,
          time_per_op := timed env (concat cs) (time_per_op ?net1)\<rparr>)"
    using assms(1) by simp
  show ?thesis using DoRunAsync_measured[OF assms(1,2) b] by simp
qed

text \<open>
  Claim C3. On a measured run (\<open>runs \<ge> 1\<close> before the call, so more than 1 after the
  increment) that the engine completes, the aggregation takes for every node index the delta
  \<open>live.sum - snapshot.sum\<close> (only \<open>sum\<close> is read, never \<open>sqrsum\<close>), adds the deltas up per
  operator type, and for every type \<open>T\<close> of a node the entry of \<^verbatim>\<open>time_per_op_type_\<close> gains the
  run-total in \<open>sum\<close>, its square in \<open>sqrsum\<close>, and the number of nodes of type \<open>T\<close> in
  \<open>cnt\<close>, all sums and products being those of \<^verbatim>\<open>float\<close>. The entry of any other type stays
  as it is. The keys of the map afterwards are the old keys and the types of the nodes.
\<close>

theorem measured_run_aggregates_per_type:
  assumes "1 \<le> runs net"
    and "length (time_per_op net) = length (operator_nodes net)"
    and "DAGNetBase_DoRunAsync env cs (net\<lparr>runs := runs net + 1\<rparr>) = (Inr ok, live)"
  shows "index_or_default Stats_zero (time_per_op_type (snd (DoRunAsync env cs net))) T =
           (if T \<in> def_type ` set (operator_nodes net)
            then add_run_total
                   (run_total (operator_nodes net) (time_per_op live) (time_per_op net) T)
                   (instance_count (operator_nodes net) T)
                   (index_or_default Stats_zero (time_per_op_type net) T)
            else index_or_default Stats_zero (time_per_op_type net) T) \<and>
         fst ` set (time_per_op_type (snd (DoRunAsync env cs net))) =
           fst ` set (time_per_op_type net) \<union> def_type ` set (operator_nodes net)"
  using DoRunAsync_measured[OF assms]
  by (simp add: aggregate_closed_form aggregate_keys)

lemma second_run_example:
  "DAGNetBase_DoRunAsync (example_env ok0 3 5) [[0], [1]] (warmed_up\<lparr>runs := runs warmed_up + 1\<rparr>) =
     (Inr ok0,
      \<lparr>net_name = ''net'', operator_nodes = [node_of_type ''Add'', node_of_type ''Add''],
       time_per_op = [\<lparr>sum_v = Finite 3, sqrsum = Finite 9, cnt = 0\<rparr>, \<lparr>sum_v = Finite 5, sqrsum = Finite 25, cnt = 0\<rparr>],
       time_per_op_type = [], runs = 2, executed = [0, 1, 0, 1]\<rparr>)"
  by (simp add: warmed_up_eq RunAt_def example_env_def Stats_zero_def accumulate_def)

lemma index_or_default_Nil: "index_or_default d [] k = d"
  by (simp add: index_or_default_def)

lemma warmed_up_fields:
  "operator_nodes warmed_up = [node_of_type ''Add'', node_of_type ''Add'']"
  "time_per_op warmed_up = [Stats_zero, Stats_zero]"
  "time_per_op_type warmed_up = []"
  "runs warmed_up = 1"
  by (simp_all add: warmed_up_eq)

lemma def_type_node_of_type: "def_type (node_of_type T) = T"
  by (simp add: node_of_type_def)

lemma example_run_total:
  "run_total [node_of_type ''Add'', node_of_type ''Add'']
     [\<lparr>sum_v = Finite 3, sqrsum = Finite 9, cnt = 0\<rparr>, \<lparr>sum_v = Finite 5, sqrsum = Finite 25, cnt = 0\<rparr>]
     [\<lparr>sum_v = Finite 0, sqrsum = Finite 0, cnt = 0\<rparr>, \<lparr>sum_v = Finite 0, sqrsum = Finite 0, cnt = 0\<rparr>] ''Add'' =
     Finite 8"
  "instance_count [node_of_type ''Add'', node_of_type ''Add''] ''Add'' = 2"
  by (simp_all add: run_total_def delta_def instance_count_def node_of_type_def Stats_zero_def)

text \<open>
  C3 at the example of the spec: one measured run in which two nodes of type "Add" take
  3 ms and 5 ms gives the type the sum 8, the sum of squares 64 and the count 2.
\<close>

theorem measured_run_aggregates_per_type_witness:
  "1 \<le> runs warmed_up \<and> length (time_per_op warmed_up) = length (operator_nodes warmed_up) \<and>
   index_or_default Stats_zero
     (time_per_op_type (snd (DoRunAsync (example_env True 3 5) [[0], [1]] warmed_up))) ''Add'' =
     \<lparr>sum_v = Finite 8, sqrsum = Finite 64, cnt = 2\<rparr>"
proof -
  have h1: "1 \<le> runs warmed_up" by (simp add: warmed_up_eq)
  have h2: "length (time_per_op warmed_up) = length (operator_nodes warmed_up)" by (simp add: warmed_up_eq)
  show ?thesis
    using h1 h2 measured_run_aggregates_per_type[OF h1 h2 second_run_example, of True "''Add''"]
    by (simp add: warmed_up_fields example_run_total index_or_default_Nil add_run_total_def
          Stats_zero_def def_type_node_of_type)
qed



subsection \<open>Reports, names and the checks of the sizes\<close>

declare to_string.simps [simp del]

lemma to_string_nonempty: "to_string n \<noteq> []"
  by (subst to_string.simps) simp

lemma digit_inj:
  fixes a b :: nat
  assumes "a < 10" "b < 10" "char_of (48 + a) = char_of (48 + b)"
  shows "a = b"
proof -
  have "(of_char (char_of (48 + a)) :: nat) = of_char (char_of (48 + b))"
    using assms(3) by simp
  then show ?thesis using assms(1,2) by simp
qed

lemma digit_not_underscore:
  fixes a :: nat
  assumes "a < 10"
  shows "char_of (48 + a) \<noteq> CHR ''_''"
proof
  assume "char_of (48 + a) = CHR ''_''"
  then have "(of_char (char_of (48 + a)) :: nat) = of_char (CHR ''_'')" by simp
  then show False using assms by simp
qed

lemma to_string_inj: "to_string m = to_string n \<Longrightarrow> m = n"
proof (induction m arbitrary: n rule: to_string.induct)
  case (1 m)
  show ?case
  proof (cases "m < 10")
    case m: True
    show ?thesis
    proof (cases "n < 10")
      case True
      with m 1(2) show ?thesis
        by (simp add: to_string.simps[of m] to_string.simps[of n] digit_inj)
    next
      case False
      with m 1(2) to_string_nonempty[of "n div 10"] show ?thesis
        by (simp add: to_string.simps[of m] to_string.simps[of n])
    qed
  next
    case m: False
    show ?thesis
    proof (cases "n < 10")
      case True
      with m 1(2) to_string_nonempty[of "m div 10"] show ?thesis
        by (simp add: to_string.simps[of m] to_string.simps[of n])
    next
      case False
      with m 1(2) have e: "to_string (m div 10) = to_string (n div 10)"
        and c: "char_of (48 + m mod 10) = char_of (48 + n mod 10)"
        by (simp_all add: to_string.simps[of m] to_string.simps[of n])
      from 1(1)[OF m e] have d: "m div 10 = n div 10" .
      have "m mod 10 = n mod 10" using c by (intro digit_inj) simp_all
      with d show ?thesis by (metis div_mult_mod_eq)
    qed
  qed
qed

lemma to_string_no_underscore: "CHR ''_'' \<notin> set (to_string n)"
proof (induction n rule: to_string.induct)
  case (1 n)
  show ?case
  proof (cases "n < 10")
    case True
    then show ?thesis using digit_not_underscore[of n]
      by (simp add: to_string.simps[of n])
  next
    case False
    then show ?thesis using 1 digit_not_underscore[of "n mod 10"]
      by (simp add: to_string.simps[of n])
  qed
qed

lemma prefix_before_separator:
  "c \<notin> set a \<Longrightarrow> c \<notin> set b \<Longrightarrow> a @ c # r1 = b @ c # r2 \<Longrightarrow> a = b"
proof (induction a arbitrary: b)
  case Nil
  then show ?case by (cases b) auto
next
  case (Cons x a)
  then show ?case by (cases b) auto
qed

lemma op_output_name_inj:
  assumes "op_output_name net i = op_output_name net j"
  shows "i = j"
proof -
  from assms have "to_string i @ CHR ''_'' # (''__'' @ def_type (operator_nodes net ! i)) =
                   to_string j @ CHR ''_'' # (''__'' @ def_type (operator_nodes net ! j))"
    by (simp add: op_output_name_def)
  from prefix_before_separator[OF to_string_no_underscore to_string_no_underscore this]
  show ?thesis by (rule to_string_inj)
qed

text \<open>
  Claim C8. When the size check passes, \<^verbatim>\<open>GetPerOperatorCost\<close> returns one record per node
  index, in index order; the record of index \<open>i\<close> is named by the net name, the decimal
  index and the operator type, joined by \<^verbatim>\<open>___\<close>, and holds the mean and deviation of that
  node's own entry. Records at distinct indices have distinct names (whatever the types are,
  so in particular for two nodes of the same type, as at indices 0 and 1).
\<close>

theorem per_operator_cost_names:
  assumes "length (time_per_op net) = length (operator_nodes net)"
  shows "\<exists>recs. GetPerOperatorCost net = Inr recs \<and>
           length recs = length (operator_nodes net) \<and>
           (\<forall>i<length (operator_nodes net).
              recs ! i = ProtoMsg (runs net)
                (net_name net @ ''___'' @ to_string i @ ''___'' @ def_type (operator_nodes net ! i),
                 time_per_op net ! i)) \<and>
           (\<forall>i<length (operator_nodes net). \<forall>j<length (operator_nodes net).
              i \<noteq> j \<longrightarrow> name (recs ! i) \<noteq> name (recs ! j))"
proof -
  let ?recs = "map (\<lambda>idx. ProtoMsg (runs net) (op_output_name net idx, time_per_op net ! idx))
                 [0..<length (operator_nodes net)]"
  have g: "GetPerOperatorCost net = Inr ?recs"
    using assms by (simp add: GetPerOperatorCost_def)
  have n: "name (?recs ! i) = op_output_name net i" if "i < length (operator_nodes net)" for i
    using that by (simp add: ProtoMsg_def Let_def)
  have d: "name (?recs ! i) \<noteq> name (?recs ! j)"
    if "i < length (operator_nodes net)" "j < length (operator_nodes net)" "i \<noteq> j" for i j
    using that n op_output_name_inj[of net i j] by auto
  have r: "?recs ! i = ProtoMsg (runs net)
                (net_name net @ ''___'' @ to_string i @ ''___'' @ def_type (operator_nodes net ! i),
                 time_per_op net ! i)" if "i < length (operator_nodes net)" for i
    using that by (simp add: op_output_name_def)
  show ?thesis using g r d by auto
qed

lemma to_string_0_1: "to_string 0 = ''0''" "to_string 1 = ''1''" "to_string (Suc 0) = ''1''"
  by code_simp+

lemma after_measured_fields:
  "operator_nodes after_measured = [node_of_type ''Add'', node_of_type ''Add'']"
  "time_per_op after_measured = [\<lparr>sum_v = Finite 3, sqrsum = Finite 9, cnt = 0\<rparr>, \<lparr>sum_v = Finite 5, sqrsum = Finite 25, cnt = 0\<rparr>]"
  "net_name after_measured = ''net''"
  "runs after_measured = 2"
  by (simp_all add: after_measured_eq)

text \<open>C8 on the example net, whose two nodes have the same type.\<close>

theorem per_operator_cost_names_witness:
  "length (time_per_op after_measured) = length (operator_nodes after_measured) \<and>
   (\<exists>recs. GetPerOperatorCost after_measured = Inr recs \<and> length recs = 2 \<and>
      name (recs ! 0) = ''net___0___Add'' \<and> name (recs ! 1) = ''net___1___Add'' \<and>
      name (recs ! 0) \<noteq> name (recs ! 1))"
proof -
  have h: "length (time_per_op after_measured) = length (operator_nodes after_measured)"
    by (simp add: after_measured_fields)
  from per_operator_cost_names[OF h] obtain recs where
    g: "GetPerOperatorCost after_measured = Inr recs" and
    l: "length recs = length (operator_nodes after_measured)" and
    r: "\<forall>i<length (operator_nodes after_measured).
              recs ! i = ProtoMsg (runs after_measured)
                (net_name after_measured @ ''___'' @ to_string i @ ''___'' @
                   def_type (operator_nodes after_measured ! i),
                 time_per_op after_measured ! i)" and
    d: "\<forall>i<length (operator_nodes after_measured). \<forall>j<length (operator_nodes after_measured).
              i \<noteq> j \<longrightarrow> name (recs ! i) \<noteq> name (recs ! j)"
    by blast
  have n0: "name (recs ! 0) = ''net___0___Add''"
    using r[rule_format, of 0]
    by (simp add: after_measured_fields ProtoMsg_def Let_def to_string_0_1 node_of_type_def)
  have n1: "name (recs ! 1) = ''net___1___Add''"
    using r[rule_format, of 1]
    by (simp add: after_measured_fields ProtoMsg_def Let_def to_string_0_1 node_of_type_def)
  have "name (recs ! 0) \<noteq> name (recs ! 1)"
    using d[rule_format, of 0 1] by (simp add: after_measured_fields)
  with h g l n0 n1 show ?thesis by (simp add: after_measured_fields)
qed

text \<open>
  Claim C1 says that a report query made with fewer than one measured run yields "no data"
  and never divides by zero. The destructor does so (it returns without printing, and
  \<^verbatim>\<open>PrintStats\<close> enforces \<^verbatim>\<open>runs_ > 1\<close>), but \<^verbatim>\<open>GetPerOperatorCost\<close> has no such guard:
  after the warm-up run of the example net \<open>runs - 1 = 0\<close>, and it returns one record per
  node whose mean and deviation are the non-finite results of dividing by zero.
  \<^verbatim>\<open>GetOperatorStats\<close> returns the empty list there, since no type has been recorded yet.
\<close>

theorem per_operator_cost_after_warmup:
  "runs warmed_up - 1 = 0 \<and>
   GetPerOperatorCost warmed_up =
     Inr [\<lparr>name = ''net___0___Add'', mean = NonFinite, stddev = NonFinite\<rparr>,
          \<lparr>name = ''net___1___Add'', mean = NonFinite, stddev = NonFinite\<rparr>] \<and>
   GetOperatorStats warmed_up = [] \<and>
   Destructor warmed_up = Inr None"
  by (simp add: warmed_up_eq GetPerOperatorCost_def GetOperatorStats_def Destructor_def
        ProtoMsg_def Let_def op_output_name_def to_string_0_1 node_of_type_def
        items_def Stats_zero_def)

lemma RunAt_loop_append:
  "\<forall>j\<in>set pre. in_range net j \<Longrightarrow>
   RunAt_loop env (pre @ rest) s net =
     RunAt_loop env rest (s \<and> (\<forall>j\<in>set pre. Run env j))
       (net\<lparr>executed := executed net @ pre,
            time_per_op := (if runs net \<le> 1 then time_per_op net else timed env pre (time_per_op net))\<rparr>)"
proof (induction pre arbitrary: s net)
  case Nil
  then show ?case by (simp add: timed_def)
next
  case (Cons idx pre)
  from Cons.prems have r: "in_range net idx" and rest: "\<forall>j\<in>set pre. in_range net j" by simp_all
  show ?case
  proof (cases "runs net \<le> 1")
    case True
    let ?net1 = "net\<lparr>executed := executed net @ [idx]\<rparr>"
    have "\<forall>j\<in>set pre. in_range ?net1 j" using rest by (simp add: in_range_def)
    from Cons.IH[OF this, of "s \<and> Run env idx"] show ?thesis using True r
      by (auto simp: in_range_def)
  next
    case False
    let ?net2 = "net\<lparr>executed := executed net @ [idx],
       time_per_op := (time_per_op net)[nat idx := accumulate (MilliSeconds env idx) (time_per_op net ! nat idx)]\<rparr>"
    have "\<forall>j\<in>set pre. in_range ?net2 j" using rest by (simp add: in_range_def)
    from Cons.IH[OF this, of "s \<and> Run env idx"] show ?thesis using False r
      by (auto simp: in_range_def Let_def timed_def)
  qed
qed

text \<open>
  Claim C2 as stated places the check \<^verbatim>\<open>time_per_op_.size() == operator_nodes_.size()\<close> in the
  chain execution. It fails: on a measured run of a net with two nodes and one timer entry,
  the chain \<open>[0]\<close> runs to the end and accumulates into entry 0.
\<close>

theorem chain_check_is_per_index_counterexample:
  "1 < runs short_net \<and>
   length (time_per_op short_net) \<noteq> length (operator_nodes short_net) \<and>
   RunAt (example_env True 3 5) [0] short_net =
     (Inr True, short_net\<lparr>time_per_op := [\<lparr>sum_v = Finite 3, sqrsum = Finite 9, cnt = 0\<rparr>], executed := [0]\<rparr>)"
  by (simp add: short_net_def RunAt_def example_env_def Stats_zero_def accumulate_def)

text \<open>
  Claim C2, amended. The equality of the sizes is enforced by \<^verbatim>\<open>DoRunAsync\<close> on a measured
  run, before the run is delegated: when it fails the run aborts with \<open>EnforceNotMet\<close>, no
  chain is executed and no entry is touched. \<^verbatim>\<open>RunAt\<close> itself enforces only, for each node
  after running its operator and before accumulating into its entry, that the index is below
  the size of \<^verbatim>\<open>time_per_op_\<close>: when that fails at a node, the chain aborts with
  \<open>EnforceNotMet\<close> without touching the entry of that node or of a later one, and the times
  of the nodes before it stay accumulated.
\<close>

theorem size_check_before_run_index_check_in_chain:
  "(1 \<le> runs net \<and> length (time_per_op net) \<noteq> length (operator_nodes net) \<longrightarrow>
      DoRunAsync env cs net = (Inl EnforceNotMet, net\<lparr>runs := runs net + 1\<rparr>)) \<and>
   (1 < runs net \<and> (\<forall>j\<in>set pre. in_range net j) \<and>
    0 \<le> idx \<and> idx < int (length (operator_nodes net)) \<and> int (length (time_per_op net)) \<le> idx \<longrightarrow>
      RunAt env (pre @ idx # rest) net =
        (Inl EnforceNotMet,
         net\<lparr>executed := executed net @ pre @ [idx],
             time_per_op := timed env pre (time_per_op net)\<rparr>))"
proof -
  have a: "DoRunAsync env cs net = (Inl EnforceNotMet, net\<lparr>runs := runs net + 1\<rparr>)"
    if "1 \<le> runs net" "length (time_per_op net) \<noteq> length (operator_nodes net)"
    using that by (simp add: DoRunAsync_def Let_def)
  have b: "RunAt env (pre @ idx # rest) net =
        (Inl EnforceNotMet,
         net\<lparr>executed := executed net @ pre @ [idx],
             time_per_op := timed env pre (time_per_op net)\<rparr>)"
    if m: "1 < runs net" and p: "\<forall>j\<in>set pre. in_range net j"
      and i: "0 \<le> idx" "idx < int (length (operator_nodes net))" "int (length (time_per_op net)) \<le> idx"
    using RunAt_loop_append[OF p, of env "idx # rest" True] m i
    by (simp add: RunAt_def Let_def length_timed)
  show ?thesis using a b by blast
qed

text \<open>C2 amended, on the net with two nodes and one timer entry.\<close>

theorem size_check_before_run_index_check_in_chain_witness:
  "DoRunAsync (example_env True 3 5) [[0]] short_net = (Inl EnforceNotMet, short_net\<lparr>runs := 3\<rparr>) \<and>
   RunAt (example_env True 3 5) [0, 1] short_net =
     (Inl EnforceNotMet,
      short_net\<lparr>executed := [0, 1], time_per_op := [\<lparr>sum_v = Finite 3, sqrsum = Finite 9, cnt = 0\<rparr>]\<rparr>)"
proof -
  have f: "runs short_net = 2" "length (time_per_op short_net) = 1"
    "length (operator_nodes short_net) = 2" "executed short_net = []"
    "time_per_op short_net = [Stats_zero]"
    by (simp_all add: short_net_def)
  have r: "in_range short_net 0" by (simp add: in_range_def f)
  have t: "timed (example_env True 3 5) [0] [Stats_zero] = [\<lparr>sum_v = Finite 3, sqrsum = Finite 9, cnt = 0\<rparr>]"
    by (simp add: timed_def accumulate_def example_env_def Stats_zero_def)
  show ?thesis
    using size_check_before_run_index_check_in_chain[of short_net "example_env True 3 5" "[[0]]" "[0]" 1 "[]"] r
    by (simp add: f t)
qed

lemma chains_in_range_iff:
  "chains_in_range nodes cs = (\<forall>idx\<in>set (concat cs). 0 \<le> idx \<and> idx < int (length nodes))"
  by (auto simp: chains_in_range_def list_all_iff)

lemma measured_run_entry:
  assumes "1 \<le> runs net"
    and "length (time_per_op net) = length (operator_nodes net)"
    and "chains_in_range (operator_nodes net) cs"
    and "i < length (operator_nodes net)"
    and "count_list (concat cs) (int i) = 1"
  shows "time_per_op (snd (DoRunAsync env cs net)) ! i =
           accumulate (MilliSeconds env (int i)) (time_per_op net ! i)"
proof -
  from assms(3) have r: "\<forall>idx\<in>set (concat cs). 0 \<le> idx \<and> idx < int (length (operator_nodes net))"
    by (simp add: chains_in_range_iff)
  then have nn: "\<forall>idx\<in>set (concat cs). 0 \<le> idx" by simp
  have i: "i < length (time_per_op net)" using assms(2,4) by simp
  from DoRunAsync_measured_in_range[OF assms(1,2) r, of env] timed_nth[OF nn i, of env] assms(5)
  show ?thesis by (simp add: accumulate_def)
qed

text \<open>
  Claim C6. Take a fresh net, a warm-up run and two measured runs whose chains stay within
  the nodes and hold node \<open>i\<close> exactly once each, with node \<open>i\<close> taking 4 ms in the first and
  6 ms in the second. Afterwards its entry is \<open>sum = 10\<close>, \<open>sqrsum = 52\<close> (and \<open>cnt = 0\<close>),
  there are 2 measured runs, and the record of node \<open>i\<close> in \<^verbatim>\<open>GetPerOperatorCost\<close> has the
  mean \<open>10 / 2 = 5\<close> and the deviation \<open>sqrt (52 / 2 - 25) = 1\<close>. All numbers involved are
  small integers, which \<^verbatim>\<open>float\<close> represents exactly.
\<close>

theorem two_measured_runs_of_4_and_6:
  assumes "i < length nodes"
    and "chains_in_range nodes cs1" and "count_list (concat cs1) (int i) = 1"
    and "MilliSeconds env1 (int i) = Finite 4"
    and "chains_in_range nodes cs2" and "count_list (concat cs2) (int i) = 1"
    and "MilliSeconds env2 (int i) = Finite 6"
  shows "time_per_op (warmup_then_two_runs nm nodes env0 cs0 env1 cs1 env2 cs2) ! i =
           \<lparr>sum_v = Finite 10, sqrsum = Finite 52, cnt = 0\<rparr> \<and>
         runs (warmup_then_two_runs nm nodes env0 cs0 env1 cs1 env2 cs2) - 1 = 2 \<and>
         (\<exists>recs. GetPerOperatorCost (warmup_then_two_runs nm nodes env0 cs0 env1 cs1 env2 cs2) = Inr recs \<and>
            mean (recs ! i) = Finite 5 \<and> stddev (recs ! i) = Finite 1)"
proof -
  let ?n0 = "ProfDAGNet nm nodes"
  let ?n1 = "snd (DoRunAsync env0 cs0 ?n0)"
  let ?n2 = "snd (DoRunAsync env1 cs1 ?n1)"
  let ?n3 = "snd (DoRunAsync env2 cs2 ?n2)"
  have fin: "warmup_then_two_runs nm nodes env0 cs0 env1 cs1 env2 cs2 = ?n3"
    by (simp add: warmup_then_two_runs_def lifetime_def)
  have n0: "runs ?n0 = 0" "operator_nodes ?n0 = nodes"
    "time_per_op ?n0 = replicate (length nodes) Stats_zero"
    by (simp_all add: ProfDAGNet_def)
  have n1: "runs ?n1 = 1" "operator_nodes ?n1 = nodes"
    "time_per_op ?n1 = replicate (length nodes) Stats_zero"
    using DoRunAsync_frame[of env0 cs0 ?n0] DoRunAsync_warmup[of ?n0 env0 cs0] n0 by simp_all
  have n2: "runs ?n2 = 2" "operator_nodes ?n2 = nodes" "length (time_per_op ?n2) = length nodes"
    using DoRunAsync_frame[of env1 cs1 ?n1] n1 by simp_all
  have n3: "runs ?n3 = 3" "operator_nodes ?n3 = nodes" "length (time_per_op ?n3) = length nodes"
    using DoRunAsync_frame[of env2 cs2 ?n2] n2 by simp_all
  have e2: "time_per_op ?n2 ! i = accumulate (Finite 4) Stats_zero"
    using measured_run_entry[of ?n1 cs1 i env1] n1 assms(1,2,3,4) by simp
  have e3: "time_per_op ?n3 ! i = accumulate (Finite 6) (accumulate (Finite 4) Stats_zero)"
    using measured_run_entry[of ?n2 cs2 i env2] n2 assms(1,5,6,7) e2 by simp
  then have st: "time_per_op ?n3 ! i = \<lparr>sum_v = Finite 10, sqrsum = Finite 52, cnt = 0\<rparr>"
    by (simp add: accumulate_def Stats_zero_def)
  let ?recs = "map (\<lambda>idx. ProtoMsg (runs ?n3) (op_output_name ?n3 idx, time_per_op ?n3 ! idx))
                 [0..<length (operator_nodes ?n3)]"
  have g: "GetPerOperatorCost ?n3 = Inr ?recs"
    using n3 by (simp add: GetPerOperatorCost_def)
  have ri: "?recs ! i = ProtoMsg 3 (op_output_name ?n3 i, \<lparr>sum_v = Finite 10, sqrsum = Finite 52, cnt = 0\<rparr>)"
    using assms(1) n3 st by simp
  have m: "mean (?recs ! i) = Finite 5" "stddev (?recs ! i) = Finite 1"
    unfolding ri by (simp_all add: ProtoMsg_def Let_def)
  show ?thesis unfolding fin using st n3(1) g m by simp
qed

text \<open>C6 on the example net, node 0.\<close>

theorem two_measured_runs_of_4_and_6_witness:
  "chains_in_range [node_of_type ''Add'', node_of_type ''Add''] [[0], [1]] \<and>
   time_per_op (warmup_then_two_runs ''net'' [node_of_type ''Add'', node_of_type ''Add'']
       (example_env True 1 1) [[0, 1]] (example_env True 4 1) [[0], [1]]
       (example_env True 6 2) [[0], [1]]) ! 0 = \<lparr>sum_v = Finite 10, sqrsum = Finite 52, cnt = 0\<rparr> \<and>
   (\<exists>recs. GetPerOperatorCost (warmup_then_two_runs ''net'' [node_of_type ''Add'', node_of_type ''Add'']
       (example_env True 1 1) [[0, 1]] (example_env True 4 1) [[0], [1]]
       (example_env True 6 2) [[0], [1]]) = Inr recs \<and>
      mean (recs ! 0) = Finite 5 \<and> stddev (recs ! 0) = Finite 1)"
proof -
  have c: "chains_in_range [node_of_type ''Add'', node_of_type ''Add''] [[0], [1]]"
    by (simp add: chains_in_range_def)
  have k: "count_list (concat [[0], [1]]) (int 0) = 1" by simp
  have m1: "MilliSeconds (example_env True 4 1) (int 0) = Finite 4"
    and m2: "MilliSeconds (example_env True 6 2) (int 0) = Finite 6"
    by (simp_all add: example_env_def)
  have i: "0 < length [node_of_type ''Add'', node_of_type ''Add'']" by simp
  from two_measured_runs_of_4_and_6[OF i c k m1 c k m2, of "''net''" "example_env True 1 1" "[[0, 1]]"] c
  show ?thesis by simp
qed

end
